theory Spec2Isabelle
  imports Main "HOL-Library.Signed_Division"
begin

section \<open>Machine integers\<close>

text \<open>
  \<^verbatim>\<open>type Amount = int64\<close> (money.go). Amounts are modelled as HOL integers together with
  Go's two's-complement wrap-around written out; Go's \<^verbatim>\<open>int\<close> and \<^verbatim>\<open>uint\<close> are taken
  to be 64 bits wide, as on every 64-bit platform. Go's \<^verbatim>\<open>/\<close> and \<^verbatim>\<open>%\<close> truncate
  towards zero: they are \<open>sdiv\<close> and \<open>smod\<close>.
\<close>

type_synonym Amount = int

definition is_int64 :: "int \<Rightarrow> bool" where
  "is_int64 x \<longleftrightarrow> - (2 ^ 63) \<le> x \<and> x < 2 ^ 63"

definition wrap64 :: "int \<Rightarrow> int" where
  "wrap64 x = (x + 2 ^ 63) mod 2 ^ 64 - 2 ^ 63"

definition wrapu64 :: "int \<Rightarrow> int" where
  "wrapu64 x = x mod 2 ^ 64"

section \<open>Errors\<close>

datatype error =
    ErrCurrencyMismatch
  | ErrInvalidJSON
  | InvalidCurrency string
  | InvalidAmount string
  | SplitNotPositive
  | NoRatios
  | NegativeRatio
  | JSONSyntax
  | PanicIndexOutOfRange
  | PanicSliceBounds
  | PanicNilDereference

section \<open>The calculator\<close>

text \<open>
  Modelled from the spec: the calculator \<^verbatim>\<open>mutate.calc\<close> (calculator.go is not among the
  sources; money.go only calls it). Section 4.3 of the specification gives each function;
  arguments and results have type \<^verbatim>\<open>Amount\<close>, so every result is taken in int64.
\<close>

definition calc_add :: "Amount \<Rightarrow> Amount \<Rightarrow> Amount" where
  "calc_add a b = wrap64 (a + b)"

definition calc_subtract :: "Amount \<Rightarrow> Amount \<Rightarrow> Amount" where
  "calc_subtract a b = wrap64 (a - b)"

definition calc_multiply :: "Amount \<Rightarrow> int \<Rightarrow> Amount" where
  "calc_multiply a m = wrap64 (a * m)"

definition calc_divide :: "Amount \<Rightarrow> int \<Rightarrow> Amount" where
  \<comment> \<open>truncating; the divisor is non-zero at every call (Split rejects \<open>n \<le> 0\<close>)\<close>
  "calc_divide a d = wrap64 (a sdiv d)"

definition calc_modulus :: "Amount \<Rightarrow> int \<Rightarrow> Amount" where
  "calc_modulus a d = a smod d"

definition calc_absolute :: "Amount \<Rightarrow> Amount" where
  "calc_absolute a = (if a < 0 then wrap64 (- a) else a)"

definition calc_negative :: "Amount \<Rightarrow> Amount" where
  \<comment> \<open>\<^verbatim>\<open>TestMoney_Negative\<close> expects \<open>-1\<close> for \<open>-1\<close> and for \<open>1\<close>\<close>
  "calc_negative a = (if 0 < a then - a else a)"

definition calc_allocate :: "Amount \<Rightarrow> int \<Rightarrow> int \<Rightarrow> Amount" where
  \<comment> \<open>\<^verbatim>\<open>allocate(a Amount, r, s uint)\<close>: 0 when the ratio sum is 0, else \<open>divide(a * r, s)\<close>;
      the two \<^verbatim>\<open>uint\<close> arguments enter the int64 arithmetic through \<open>wrap64\<close>\<close>
  "calc_allocate a r s =
     (if s = 0 then 0 else calc_divide (calc_multiply a (wrap64 r)) (wrap64 s))"

text \<open>
  Modelled from the spec: the calculator's \<^verbatim>\<open>round\<close> (calculator.go is not among the sources).
  The specification asks for the multiple of \<open>10^e\<close> nearest to \<open>a\<close>, a magnitude exactly at the
  half boundary rounding outward: the magnitude plus half a step, cut down to a multiple, with
  the sign of \<open>a\<close> restored. \<open>round_nearest\<close> is that value on the integers of the
  specification, \<open>calc_round\<close> the \<^verbatim>\<open>Amount\<close> returned for it.
\<close>

definition round_nearest :: "int \<Rightarrow> nat \<Rightarrow> int" where
  "round_nearest a e = sgn a * ((\<bar>a\<bar> + 10 ^ e div 2) div 10 ^ e * 10 ^ e)"

definition calc_round :: "Amount \<Rightarrow> int \<Rightarrow> Amount" where
  "calc_round a e = wrap64 (round_nearest a (nat e))"

section \<open>Currency and Money\<close>

text \<open>
  Modelled from the spec: the \<^verbatim>\<open>Currency\<close> struct (currency.go is not among the sources).
  The fields are those of the specification's CurrencyRecord; money.go reads \<^verbatim>\<open>Code\<close>,
  \<^verbatim>\<open>Fraction\<close> and \<^verbatim>\<open>Decimal\<close>.
\<close>

record Currency =
  Code :: string
  Fraction :: int
  Grapheme :: string
  Template :: string
  Decimal :: string
  Thousand :: string

text \<open>
  \<^verbatim>\<open>type Money struct { amount Amount; currency *Currency }\<close>. The pointer to the
  currency record is \<open>None\<close> when nil, as in the zero value \<^verbatim>\<open>Money{}\<close>.
\<close>

record Money =
  amount :: Amount
  currency :: "Currency option"

section \<open>Split\<close>

text \<open>
  The second loop of \<^verbatim>\<open>Split\<close>:
  \<^verbatim>\<open>for p := 0; l != 0; p++ { ms[p].amount = mutate.calc.add(ms[p].amount, v); l-- }\<close>.
  Indexing \<^verbatim>\<open>ms[p]\<close> beyond the slice is Go's index-out-of-range panic. Every element of
  \<^verbatim>\<open>ms\<close> is a freshly allocated \<^verbatim>\<open>Money\<close>, so the slice of pointers is a list of values.
\<close>

function Split_loop :: "nat \<Rightarrow> int \<Rightarrow> int \<Rightarrow> Money list \<Rightarrow> error + Money list" where
  "Split_loop p l v ms =
     (if l = 0 then Inr ms
      else if length ms \<le> p then Inl PanicIndexOutOfRange
      else Split_loop (p + 1) (wrap64 (l - 1)) v
             (ms[p := (ms ! p)\<lparr>amount := calc_add (amount (ms ! p)) v\<rparr>]))"
  by pat_completeness auto
termination
  by (relation "measure (\<lambda>(p, l, v, ms). length ms - p)") auto

declare Split_loop.simps [simp del]

definition Split :: "Money \<Rightarrow> int \<Rightarrow> error + Money list" where
  "Split m n =
     (if n \<le> 0 then Inl SplitNotPositive
      else
        let a = calc_divide (amount m) n;
            ms = replicate (nat n) \<lparr>amount = a, currency = currency m\<rparr>;
            r = calc_modulus (amount m) n;
            l = calc_absolute r;
            v = (if amount m < 0 then - 1 else 1)
        in Split_loop 0 l v ms)"

section \<open>Allocate\<close>

text \<open>
  The first loop of \<^verbatim>\<open>Allocate\<close> rejects a negative ratio and sums the ratios in a
  \<^verbatim>\<open>uint\<close>: \<^verbatim>\<open>sum += uint(r)\<close> (the variable \<^verbatim>\<open>sum\<close> is \<open>rsum\<close> here).
\<close>

fun Allocate_sum :: "int list \<Rightarrow> int \<Rightarrow> error + int" where
  "Allocate_sum [] rsum = Inr rsum"
| "Allocate_sum (r # rs) rsum =
     (if r < 0 then Inl NegativeRatio else Allocate_sum rs (wrapu64 (rsum + wrapu64 r)))"

text \<open>
  The second loop appends one party per ratio and accumulates \<^verbatim>\<open>total += party.amount\<close>
  in an int64 (the variable \<^verbatim>\<open>total\<close> is \<open>tot\<close> here).
\<close>

fun Allocate_parties ::
  "Money \<Rightarrow> int \<Rightarrow> int list \<Rightarrow> Money list \<Rightarrow> int \<Rightarrow> Money list \<times> int" where
  "Allocate_parties m rsum [] ms tot = (ms, tot)"
| "Allocate_parties m rsum (r # rs) ms tot =
     (let party = \<lparr>amount = calc_allocate (amount m) (wrapu64 r) rsum, currency = currency m\<rparr>
      in Allocate_parties m rsum rs (ms @ [party]) (wrap64 (tot + amount party)))"

text \<open>
  The leftover loop:
  \<^verbatim>\<open>for p := 0; lo != 0; p++ { ms[p].amount = mutate.calc.add(ms[p].amount, sub); lo -= sub }\<close>.
\<close>

function Allocate_loop :: "nat \<Rightarrow> int \<Rightarrow> int \<Rightarrow> Money list \<Rightarrow> error + Money list" where
  "Allocate_loop p lo sub ms =
     (if lo = 0 then Inr ms
      else if length ms \<le> p then Inl PanicIndexOutOfRange
      else Allocate_loop (p + 1) (wrap64 (lo - sub)) sub
             (ms[p := (ms ! p)\<lparr>amount := calc_add (amount (ms ! p)) sub\<rparr>]))"
  by pat_completeness auto
termination
  by (relation "measure (\<lambda>(p, lo, sub, ms). length ms - p)") auto

declare Allocate_loop.simps [simp del]

definition Allocate :: "Money \<Rightarrow> int list \<Rightarrow> error + Money list" where
  "Allocate m rs =
     (if rs = [] then Inl NoRatios
      else case Allocate_sum rs 0 of
        Inl e \<Rightarrow> Inl e
      | Inr rsum \<Rightarrow>
          (case Allocate_parties m rsum rs [] 0 of
            (ms, tot) \<Rightarrow>
              if rsum = 0 then Inr ms
              else
                let lo = wrap64 (amount m - tot);
                    sub = (if lo < 0 then - 1 else 1)
                in Allocate_loop 0 lo sub ms))"

section \<open>Comparison and arithmetic on Money\<close>

text \<open>
  Modelled from the spec: \<^verbatim>\<open>Currency.equals\<close> (currency.go is not among the sources): two
  currencies are the same when their codes are identical. Reading the code through a nil
  pointer is Go's nil-dereference panic.
\<close>

definition equals :: "Currency option \<Rightarrow> Currency option \<Rightarrow> error + bool" where
  "equals c oc =
     (case (c, oc) of
        (Some x, Some y) \<Rightarrow> Inr (Code x = Code y)
      | _ \<Rightarrow> Inl PanicNilDereference)"

definition SameCurrency :: "Money \<Rightarrow> Money \<Rightarrow> error + bool" where
  "SameCurrency m om = equals (currency m) (currency om)"

text \<open>
  \<^verbatim>\<open>assertSameCurrency\<close> returns an \<^verbatim>\<open>error\<close> value, \<open>None\<close> for Go's \<^verbatim>\<open>nil\<close>. A function with
  two results \<^verbatim>\<open>(v, err)\<close> returns the pair \<open>Inr (v, err)\<close>; \<open>Inl\<close> is a panic.
\<close>

definition assertSameCurrency :: "Money \<Rightarrow> Money \<Rightarrow> error + error option" where
  "assertSameCurrency m om =
     (case SameCurrency m om of
        Inl e \<Rightarrow> Inl e
      | Inr same \<Rightarrow> Inr (if \<not> same then Some ErrCurrencyMismatch else None))"

definition compare :: "Money \<Rightarrow> Money \<Rightarrow> int" where
  "compare m om = (if amount m > amount om then 1 else if amount m < amount om then - 1 else 0)"

definition Equals :: "Money \<Rightarrow> Money \<Rightarrow> error + bool \<times> error option" where
  "Equals m om =
     (case assertSameCurrency m om of
        Inl e \<Rightarrow> Inl e
      | Inr (Some err) \<Rightarrow> Inr (False, Some err)
      | Inr None \<Rightarrow> Inr (compare m om = 0, None))"

definition GreaterThan :: "Money \<Rightarrow> Money \<Rightarrow> error + bool \<times> error option" where
  "GreaterThan m om =
     (case assertSameCurrency m om of
        Inl e \<Rightarrow> Inl e
      | Inr (Some err) \<Rightarrow> Inr (False, Some err)
      | Inr None \<Rightarrow> Inr (compare m om = 1, None))"

definition GreaterThanOrEqual :: "Money \<Rightarrow> Money \<Rightarrow> error + bool \<times> error option" where
  "GreaterThanOrEqual m om =
     (case assertSameCurrency m om of
        Inl e \<Rightarrow> Inl e
      | Inr (Some err) \<Rightarrow> Inr (False, Some err)
      | Inr None \<Rightarrow> Inr (compare m om \<ge> 0, None))"

definition LessThan :: "Money \<Rightarrow> Money \<Rightarrow> error + bool \<times> error option" where
  "LessThan m om =
     (case assertSameCurrency m om of
        Inl e \<Rightarrow> Inl e
      | Inr (Some err) \<Rightarrow> Inr (False, Some err)
      | Inr None \<Rightarrow> Inr (compare m om = - 1, None))"

definition LessThanOrEqual :: "Money \<Rightarrow> Money \<Rightarrow> error + bool \<times> error option" where
  "LessThanOrEqual m om =
     (case assertSameCurrency m om of
        Inl e \<Rightarrow> Inl e
      | Inr (Some err) \<Rightarrow> Inr (False, Some err)
      | Inr None \<Rightarrow> Inr (compare m om \<le> 0, None))"

text \<open>
  \<^verbatim>\<open>Compare\<close> returns \<^verbatim>\<open>int(m.amount)\<close> next to the error when the currencies differ; with a
  64-bit \<^verbatim>\<open>int\<close> the conversion keeps the value.
\<close>

definition Compare :: "Money \<Rightarrow> Money \<Rightarrow> error + int \<times> error option" where
  "Compare m om =
     (case assertSameCurrency m om of
        Inl e \<Rightarrow> Inl e
      | Inr (Some err) \<Rightarrow> Inr (amount m, Some err)
      | Inr None \<Rightarrow> Inr (compare m om, None))"

text \<open>\<^verbatim>\<open>Add\<close> and \<^verbatim>\<open>Subtract\<close> return a nil \<^verbatim>\<open>*Money\<close> (\<open>None\<close>) next to the error.\<close>

definition Add :: "Money \<Rightarrow> Money \<Rightarrow> error + Money option \<times> error option" where
  "Add m om =
     (case assertSameCurrency m om of
        Inl e \<Rightarrow> Inl e
      | Inr (Some err) \<Rightarrow> Inr (None, Some err)
      | Inr None \<Rightarrow>
          Inr (Some \<lparr>amount = calc_add (amount m) (amount om), currency = currency m\<rparr>, None))"

definition Subtract :: "Money \<Rightarrow> Money \<Rightarrow> error + Money option \<times> error option" where
  "Subtract m om =
     (case assertSameCurrency m om of
        Inl e \<Rightarrow> Inl e
      | Inr (Some err) \<Rightarrow> Inr (None, Some err)
      | Inr None \<Rightarrow>
          Inr (Some \<lparr>amount = calc_subtract (amount m) (amount om), currency = currency m\<rparr>, None))"

definition Absolute :: "Money \<Rightarrow> Money" where
  "Absolute m = \<lparr>amount = calc_absolute (amount m), currency = currency m\<rparr>"

definition Negative :: "Money \<Rightarrow> Money" where
  "Negative m = \<lparr>amount = calc_negative (amount m), currency = currency m\<rparr>"

definition Multiply :: "Money \<Rightarrow> int \<Rightarrow> Money" where
  "Multiply m mul = \<lparr>amount = calc_multiply (amount m) mul, currency = currency m\<rparr>"

text \<open>\<^verbatim>\<open>Round\<close> reads \<^verbatim>\<open>m.currency.Fraction\<close>: a nil currency is a nil-dereference panic.\<close>

definition Round :: "Money \<Rightarrow> error + Money" where
  "Round m =
     (case currency m of
        None \<Rightarrow> Inl PanicNilDereference
      | Some c \<Rightarrow> Inr \<lparr>amount = calc_round (amount m) (Fraction c), currency = currency m\<rparr>)"

section \<open>Go strings and \<^verbatim>\<open>strconv.ParseInt\<close>\<close>

text \<open>
  A Go string is a sequence of bytes, \<^verbatim>\<open>len\<close> counts bytes and a slice expression
  \<^verbatim>\<open>s[lo:hi]\<close> panics unless \<open>0 \<le> lo \<le> hi \<le> len(s)\<close>. \<^verbatim>\<open>strings.Index(s, sep)\<close> is the
  index of the first occurrence of \<open>sep\<close> in \<open>s\<close> (0 for the empty \<open>sep\<close>), \<open>None\<close> standing for
  its \<open>-1\<close>.
\<close>

fun strings_Index :: "string \<Rightarrow> string \<Rightarrow> nat option" where
  "strings_Index [] sep = (if sep = [] then Some 0 else None)"
| "strings_Index (c # s) sep =
     (if take (length sep) (c # s) = sep then Some 0
      else map_option Suc (strings_Index s sep))"

definition slice :: "string \<Rightarrow> int \<Rightarrow> int \<Rightarrow> error + string" where
  "slice s lo hi =
     (if 0 \<le> lo \<and> lo \<le> hi \<and> hi \<le> int (length s)
      then Inr (take (nat (hi - lo)) (drop (nat lo) s))
      else Inl PanicSliceBounds)"

text \<open>
  \<^verbatim>\<open>strconv.ParseInt(s, 10, 64)\<close>, from the documentation of the Go standard library: an
  optional sign \<^verbatim>\<open>+\<close> or \<^verbatim>\<open>-\<close>, then one or more decimal digits and nothing else, of a value
  that fits int64. \<open>None\<close> is a non-nil error (of syntax or of range):
  \<^verbatim>\<open>NewFromString\<close> only tests \<^verbatim>\<open>err != nil\<close>.
\<close>

definition digit_of :: "char \<Rightarrow> int option" where
  "digit_of c =
     (if of_char (CHR ''0'') \<le> (of_char c :: int) \<and> (of_char c :: int) \<le> of_char (CHR ''9'')
      then Some (of_char c - of_char (CHR ''0'')) else None)"

fun parse_digits :: "string \<Rightarrow> int \<Rightarrow> int option" where
  "parse_digits [] n = Some n"
| "parse_digits (c # s) n =
     (case digit_of c of None \<Rightarrow> None | Some d \<Rightarrow> parse_digits s (n * 10 + d))"

definition ParseUint :: "string \<Rightarrow> int option" where
  "ParseUint s = (if s = [] then None else parse_digits s 0)"

definition ParseInt :: "string \<Rightarrow> int option" where
  "ParseInt s =
     (if s = [] then None
      else
        let neg = (hd s = CHR ''-'');
            s' = (if hd s = CHR ''+'' \<or> hd s = CHR ''-'' then tl s else s)
        in case ParseUint s' of
             None \<Rightarrow> None
           | Some un \<Rightarrow>
               if \<not> neg \<and> 2 ^ 63 \<le> un then None
               else if neg \<and> 2 ^ 63 < un then None
               else Some (if neg then - un else un))"

section \<open>NewFromString\<close>

text \<open>
  The registry of currencies (currency.go) is not among the sources: \<^verbatim>\<open>GetCurrency\<close> is a
  parameter, the lookup by code of the specification. The parameter \<^verbatim>\<open>amount\<close> of
  \<^verbatim>\<open>NewFromString\<close> is \<open>amt\<close> here and its variable \<^verbatim>\<open>currency\<close> is \<open>cur\<close>. The padding loop is
  \<^verbatim>\<open>for d := decimals; d < fraction; d++ { parsed *= 10 }\<close>, on an int64.
\<close>

function NewFromString_loop :: "int \<Rightarrow> int \<Rightarrow> int \<Rightarrow> int" where
  "NewFromString_loop d fraction parsed =
     (if d < fraction then NewFromString_loop (d + 1) fraction (wrap64 (parsed * 10))
      else parsed)"
  by pat_completeness auto
termination
  by (relation "measure (\<lambda>(d, fraction, parsed). nat (fraction - d))") auto

declare NewFromString_loop.simps [simp del]

definition NewFromString_toParse :: "Currency \<Rightarrow> string \<Rightarrow> error + string \<times> int" where
  "NewFromString_toParse cur amt =
     (case strings_Index amt (Decimal cur) of
        None \<Rightarrow> Inr (amt, 0)
      | Some pointIndex \<Rightarrow>
          let decimals = int (length amt) - int pointIndex - 1;
              decimals = (if decimals > Fraction cur then Fraction cur else decimals)
          in case slice amt 0 (int pointIndex) of
               Inl e \<Rightarrow> Inl e
             | Inr a \<Rightarrow>
                 (case slice amt (int pointIndex + 1) (int pointIndex + 1 + decimals) of
                    Inl e \<Rightarrow> Inl e
                  | Inr b \<Rightarrow> Inr (a @ b, decimals)))"

definition NewFromString ::
  "(string \<Rightarrow> Currency option) \<Rightarrow> string \<Rightarrow> string \<Rightarrow> error + Money" where
  "NewFromString GetCurrency amt currencyCode =
     (case GetCurrency currencyCode of
        None \<Rightarrow> Inl (InvalidCurrency currencyCode)
      | Some cur \<Rightarrow>
          (case NewFromString_toParse cur amt of
             Inl e \<Rightarrow> Inl e
           | Inr (toParse, decimals) \<Rightarrow>
               (case ParseInt toParse of
                  None \<Rightarrow> Inl (InvalidAmount amt)
                | Some parsed \<Rightarrow>
                    Inr \<lparr>amount = NewFromString_loop decimals (Fraction cur) parsed,
                         currency = Some cur\<rparr>)))"

text \<open>
  The parser as the specification words it (section 4.2): the substring after the separator,
  cut to at most \<open>fraction\<close> digits, appended to the integer part, read as a signed decimal
  integer and multiplied by \<open>10^(fraction - suppliedDigits)\<close>.
\<close>

definition parse_spec :: "Currency \<Rightarrow> string \<Rightarrow> error + int" where
  "parse_spec c amt =
     (let (integerPart, fractionDigits) =
            (case strings_Index amt (Decimal c) of
               None \<Rightarrow> (amt, [])
             | Some i \<Rightarrow>
                 (take i amt, take (nat (Fraction c)) (drop (i + length (Decimal c)) amt)))
      in case ParseInt (integerPart @ fractionDigits) of
           None \<Rightarrow> Inl (InvalidAmount amt)
         | Some v \<Rightarrow> Inr (v * 10 ^ (nat (Fraction c) - length fractionDigits)))"

section \<open>The formatter\<close>

text \<open>
  Modelled from the spec: the formatter (formatter.go is not among the sources; its tests
  are). Section 4.4 of the specification: the sign; the decimal text of the magnitude, padded
  with zeros on the left to at least \<open>fraction + 1\<close> characters; the integer part, all but the
  last \<open>fraction\<close> digits, with the thousand separator inserted every three digits from the
  right unless that separator is empty; then the decimal separator and the last \<open>fraction\<close>
  digits when \<open>fraction > 0\<close>. In the template the character \<open>1\<close> stands for the amount and
  \<open>$\<close> for the grapheme, as in the templates of the tests.
\<close>

function decimal_text :: "int \<Rightarrow> string" where
  "decimal_text n =
     (if n < 10 then [char_of (of_char (CHR ''0'') + n)]
      else decimal_text (n div 10) @ [char_of (of_char (CHR ''0'') + n mod 10)])"
  by pat_completeness auto
termination
  by (relation "measure nat") auto

declare decimal_text.simps [simp del]

definition zero_pad :: "nat \<Rightarrow> string \<Rightarrow> string" where
  "zero_pad n ds = replicate (n - length ds) (CHR ''0'') @ ds"

fun group3_rev :: "string \<Rightarrow> string \<Rightarrow> string" where
  "group3_rev sep (a # b # c # d # ds) = a # b # c # sep @ group3_rev sep (d # ds)"
| "group3_rev sep ds = ds"

definition group3 :: "string \<Rightarrow> string \<Rightarrow> string" where
  "group3 sep ds = (if sep = [] then ds else rev (group3_rev (rev sep) (rev ds)))"

definition digits :: "Currency \<Rightarrow> int \<Rightarrow> string" where
  "digits c a = zero_pad (nat (Fraction c) + 1) (decimal_text \<bar>a\<bar>)"

definition numeric :: "Currency \<Rightarrow> int \<Rightarrow> string" where
  "numeric c a =
     (let integerPart = take (length (digits c a) - nat (Fraction c)) (digits c a);
          fractionPart = drop (length (digits c a) - nat (Fraction c)) (digits c a)
      in group3 (Thousand c) integerPart
         @ (if 0 < Fraction c then Decimal c @ fractionPart else []))"

text \<open>
  Substituting the amount placeholder, a string for the first \<open>1\<close>; removing the grapheme
  placeholder is \<open>remove1\<close> of the character \<open>$\<close>; trimming is Go's \<^verbatim>\<open>strings.TrimSpace\<close> on
  the ASCII white space.
\<close>

fun replace1 :: "char \<Rightarrow> string \<Rightarrow> string \<Rightarrow> string" where
  "replace1 p r [] = []"
| "replace1 p r (x # xs) = (if x = p then r @ xs else x # replace1 p r xs)"

definition is_space :: "char \<Rightarrow> bool" where
  "is_space x \<longleftrightarrow> x \<in> {CHR '' '', CHR 0x09, CHR 0x0A, CHR 0x0B, CHR 0x0C, CHR 0x0D}"

definition TrimSpace :: "string \<Rightarrow> string" where
  "TrimSpace s = rev (dropWhile is_space (rev (dropWhile is_space s)))"

definition Format :: "Currency \<Rightarrow> int \<Rightarrow> string" where
  "Format c a =
     (if a < 0 then ''-'' else [])
     @ replace1 (CHR ''$'') (Grapheme c) (replace1 (CHR ''1'') (numeric c a) (Template c))"

definition FormatAmount :: "Currency \<Rightarrow> int \<Rightarrow> string" where
  "FormatAmount c a =
     (if a < 0 then ''-'' else [])
     @ TrimSpace (remove1 (CHR ''$'') (replace1 (CHR ''1'') (numeric c a) (Template c)))"

text \<open>
  \<^verbatim>\<open>func (m *Money) Amount() string\<close> formats the amount with the formatter of
  \<^verbatim>\<open>m.currency.get()\<close>. Modelled from the spec: \<^verbatim>\<open>Currency.get\<close> (currency.go is not among the
  sources) is the currency itself, and for a nil pointer a default record, the parameter
  \<open>dflt\<close> (\<^verbatim>\<open>TestDefaultMarshal\<close> formats the zero Money as \<open>0.00\<close>).
\<close>

definition Currency_get :: "Currency \<Rightarrow> Currency option \<Rightarrow> Currency" where
  "Currency_get dflt c = (case c of None \<Rightarrow> dflt | Some x \<Rightarrow> x)"

definition Money_Amount :: "Currency \<Rightarrow> Money \<Rightarrow> string" where
  "Money_Amount dflt m = FormatAmount (Currency_get dflt (currency m)) (amount m)"

section \<open>Decoding JSON\<close>

text \<open>
  \<^verbatim>\<open>unmarshalJSON\<close> first calls \<^verbatim>\<open>json.Unmarshal(b, &data)\<close> of the Go standard library, with
  \<^verbatim>\<open>data\<close> a \<^verbatim>\<open>map[string]interface{}\<close>. Its outcome is the argument \<open>decoded\<close> here: the error, or
  the map from the keys of the JSON object to their values. The result is the returned error
  (\<open>None\<close> for nil) and the value of \<^verbatim>\<open>*m\<close> after the call; a panic of \<^verbatim>\<open>NewFromString\<close>
  passes through in the place of the error.
\<close>

datatype json =
    JNull
  | JBool bool
  | JNumber int
  | JString string
  | JArray "json list"
  | JObject "(string \<times> json) list"

definition unmarshalJSON_field :: "(string \<rightharpoonup> json) \<Rightarrow> string \<Rightarrow> error + string" where
  \<comment> \<open>\<^verbatim>\<open>var x string; if raw, ok := data[key]; ok { x, ok = raw.(string); if !ok { return ErrInvalidJSON } }\<close>\<close>
  "unmarshalJSON_field data key =
     (case data key of
        None \<Rightarrow> Inr []
      | Some (JString x) \<Rightarrow> Inr x
      | Some _ \<Rightarrow> Inl ErrInvalidJSON)"

definition unmarshalJSON ::
  "(string \<Rightarrow> Currency option) \<Rightarrow> Money \<Rightarrow> error + (string \<rightharpoonup> json)
     \<Rightarrow> error option \<times> Money" where
  "unmarshalJSON GetCurrency m decoded =
     (case decoded of
        Inl err \<Rightarrow> (Some err, m)
      | Inr data \<Rightarrow>
          (case unmarshalJSON_field data ''amount'' of
             Inl err \<Rightarrow> (Some err, m)
           | Inr amt \<Rightarrow>
               (case unmarshalJSON_field data ''currency'' of
                  Inl err \<Rightarrow> (Some err, m)
                | Inr cur \<Rightarrow>
                    (case (if amt = [] \<and> cur = [] then Inr \<lparr>amount = 0, currency = None\<rparr>
                           else NewFromString GetCurrency amt cur) of
                       Inl err \<Rightarrow> (Some err, m)
                     | Inr ref \<Rightarrow> (None, ref)))))"

section \<open>Money values in memory\<close>

text \<open>
  Every method has a pointer receiver \<^verbatim>\<open>m *Money\<close> and returns pointers to newly allocated
  values; \<^verbatim>\<open>Split\<close> and \<^verbatim>\<open>Allocate\<close> then assign to \<^verbatim>\<open>ms[p].amount\<close> through those pointers.
  The store is the list of all \<^verbatim>\<open>Money\<close> values allocated so far, a pointer is an index into
  it, and \<^verbatim>\<open>&Money{...}\<close> appends. An index outside the store stands for the nil pointer.
\<close>

type_synonym store = "Money list"

definition alloc :: "store \<Rightarrow> Money \<Rightarrow> nat \<times> store" where
  "alloc h v = (length h, h @ [v])"

definition Absolute_s :: "store \<Rightarrow> nat \<Rightarrow> error + nat \<times> store" where
  "Absolute_s h m =
     (if length h \<le> m then Inl PanicNilDereference else Inr (alloc h (Absolute (h ! m))))"

definition Negative_s :: "store \<Rightarrow> nat \<Rightarrow> error + nat \<times> store" where
  "Negative_s h m =
     (if length h \<le> m then Inl PanicNilDereference else Inr (alloc h (Negative (h ! m))))"

definition Multiply_s :: "store \<Rightarrow> nat \<Rightarrow> int \<Rightarrow> error + nat \<times> store" where
  "Multiply_s h m mul =
     (if length h \<le> m then Inl PanicNilDereference else Inr (alloc h (Multiply (h ! m) mul)))"

definition Round_s :: "store \<Rightarrow> nat \<Rightarrow> error + nat \<times> store" where
  "Round_s h m =
     (if length h \<le> m then Inl PanicNilDereference
      else case Round (h ! m) of Inl e \<Rightarrow> Inl e | Inr v \<Rightarrow> Inr (alloc h v))"

definition Add_s ::
  "store \<Rightarrow> nat \<Rightarrow> nat \<Rightarrow> error + (nat option \<times> error option) \<times> store" where
  "Add_s h m om =
     (if length h \<le> m \<or> length h \<le> om then Inl PanicNilDereference
      else case Add (h ! m) (h ! om) of
        Inl e \<Rightarrow> Inl e
      | Inr (None, err) \<Rightarrow> Inr ((None, err), h)
      | Inr (Some v, err) \<Rightarrow> (case alloc h v of (p, h') \<Rightarrow> Inr ((Some p, err), h')))"

definition Subtract_s ::
  "store \<Rightarrow> nat \<Rightarrow> nat \<Rightarrow> error + (nat option \<times> error option) \<times> store" where
  "Subtract_s h m om =
     (if length h \<le> m \<or> length h \<le> om then Inl PanicNilDereference
      else case Subtract (h ! m) (h ! om) of
        Inl e \<Rightarrow> Inl e
      | Inr (None, err) \<Rightarrow> Inr ((None, err), h)
      | Inr (Some v, err) \<Rightarrow> (case alloc h v of (p, h') \<Rightarrow> Inr ((Some p, err), h')))"

text \<open>
  \<^verbatim>\<open>Split\<close> in memory. The first loop,
  \<^verbatim>\<open>for i := 0; i < n; i++ { ms[i] = &Money{amount: a, currency: m.currency} }\<close>, fills the
  slice in order; the second assigns through \<^verbatim>\<open>ms[p]\<close>. The result is the slice (or the
  error) with the store as the call leaves it.
\<close>

fun Split_new :: "nat \<Rightarrow> int \<Rightarrow> nat \<Rightarrow> nat list \<Rightarrow> store \<Rightarrow> nat list \<times> store" where
  "Split_new 0 a m ms h = (ms, h)"
| "Split_new (Suc k) a m ms h =
     (case alloc h \<lparr>amount = a, currency = currency (h ! m)\<rparr> of
        (p, h') \<Rightarrow> Split_new k a m (ms @ [p]) h')"

function Split_loop_s ::
  "nat \<Rightarrow> int \<Rightarrow> int \<Rightarrow> nat list \<Rightarrow> store \<Rightarrow> (error + nat list) \<times> store" where
  "Split_loop_s p l v ms h =
     (if l = 0 then (Inr ms, h)
      else if length ms \<le> p then (Inl PanicIndexOutOfRange, h)
      else Split_loop_s (p + 1) (wrap64 (l - 1)) v ms
             (h[ms ! p := (h ! (ms ! p))\<lparr>amount := calc_add (amount (h ! (ms ! p))) v\<rparr>]))"
  by pat_completeness auto
termination
  by (relation "measure (\<lambda>(p, l, v, ms, h). length ms - p)") auto

declare Split_loop_s.simps [simp del]

definition Split_s :: "store \<Rightarrow> nat \<Rightarrow> int \<Rightarrow> (error + nat list) \<times> store" where
  "Split_s h m n =
     (if n \<le> 0 then (Inl SplitNotPositive, h)
      else if length h \<le> m then (Inl PanicNilDereference, h)
      else
        let a = calc_divide (amount (h ! m)) n in
        case Split_new (nat n) a m [] h of
          (ms, h1) \<Rightarrow>
            let r = calc_modulus (amount (h1 ! m)) n;
                l = calc_absolute r;
                v = (if amount (h1 ! m) < 0 then - 1 else 1)
            in Split_loop_s 0 l v ms h1)"

text \<open>\<^verbatim>\<open>Allocate\<close> in memory: the loop over the ratios allocates, the leftover loop assigns.\<close>

fun Allocate_parties_s ::
  "nat \<Rightarrow> int \<Rightarrow> int list \<Rightarrow> nat list \<Rightarrow> int \<Rightarrow> store \<Rightarrow> nat list \<times> int \<times> store" where
  "Allocate_parties_s m rsum [] ms tot h = (ms, tot, h)"
| "Allocate_parties_s m rsum (r # rs) ms tot h =
     (case alloc h \<lparr>amount = calc_allocate (amount (h ! m)) (wrapu64 r) rsum,
                     currency = currency (h ! m)\<rparr> of
        (party, h') \<Rightarrow>
          Allocate_parties_s m rsum rs (ms @ [party]) (wrap64 (tot + amount (h' ! party))) h')"

function Allocate_loop_s ::
  "nat \<Rightarrow> int \<Rightarrow> int \<Rightarrow> nat list \<Rightarrow> store \<Rightarrow> (error + nat list) \<times> store" where
  "Allocate_loop_s p lo sub ms h =
     (if lo = 0 then (Inr ms, h)
      else if length ms \<le> p then (Inl PanicIndexOutOfRange, h)
      else Allocate_loop_s (p + 1) (wrap64 (lo - sub)) sub ms
             (h[ms ! p := (h ! (ms ! p))\<lparr>amount := calc_add (amount (h ! (ms ! p))) sub\<rparr>]))"
  by pat_completeness auto
termination
  by (relation "measure (\<lambda>(p, lo, sub, ms, h). length ms - p)") auto

declare Allocate_loop_s.simps [simp del]

definition Allocate_s :: "store \<Rightarrow> nat \<Rightarrow> int list \<Rightarrow> (error + nat list) \<times> store" where
  "Allocate_s h m rs =
     (if rs = [] then (Inl NoRatios, h)
      else case Allocate_sum rs 0 of
        Inl e \<Rightarrow> (Inl e, h)
      | Inr rsum \<Rightarrow>
          if length h \<le> m then (Inl PanicNilDereference, h)
          else
            (case Allocate_parties_s m rsum rs [] 0 h of
              (ms, tot, h1) \<Rightarrow>
                if rsum = 0 then (Inr ms, h1)
                else
                  let lo = wrap64 (amount (h1 ! m) - tot);
                      sub = (if lo < 0 then - 1 else 1)
                  in Allocate_loop_s 0 lo sub ms h1))"

text \<open>
  What the frame property of a call says of the stores before and after it: \<open>kept h h'\<close>,
  every value of \<open>h\<close> is still there, unchanged, in \<open>h'\<close>; \<open>new_in h h' p\<close>, the pointer
  \<open>p\<close> was allocated by the call.
\<close>

definition kept :: "store \<Rightarrow> store \<Rightarrow> bool" where
  "kept h h' \<longleftrightarrow> length h \<le> length h' \<and> take (length h) h' = h"

definition new_in :: "store \<Rightarrow> store \<Rightarrow> nat \<Rightarrow> bool" where
  "new_in h h' p \<longleftrightarrow> length h \<le> p \<and> p < length h'"

section \<open>Currencies of the tests\<close>

text \<open>
  The tests construct their values with \<^verbatim>\<open>New(100, GBP)\<close> and \<^verbatim>\<open>New(200, EUR)\<close>. The table of
  currencies (currency.go) is not among the sources: the two records have the codes and the
  shape the tests show (\<^verbatim>\<open>TestMoney_Format\<close>: two fraction digits, grapheme before the amount),
  with the graphemes written in ASCII.
\<close>

definition GBP :: Currency where
  "GBP = \<lparr>Code = ''GBP'', Fraction = 2, Grapheme = ''#'', Template = ''$1'', Decimal = ''.'',
          Thousand = '',''\<rparr>"

definition EUR :: Currency where
  "EUR = \<lparr>Code = ''EUR'', Fraction = 2, Grapheme = ''E'', Template = ''$1'', Decimal = ''.'',
          Thousand = '',''\<rparr>"

definition GetCurrency_tests :: "string \<Rightarrow> Currency option" where
  "GetCurrency_tests code =
     (if code = ''GBP'' then Some GBP else if code = ''EUR'' then Some EUR else None)"

text \<open>
  A currency registered by the caller (\<^verbatim>\<open>AddCurrency\<close>; XTS is the ISO 4217 code reserved
  for tests), with no thousand separator and with the Arabic decimal separator U+066B, which
  is two bytes long in UTF-8.
\<close>

definition XTS :: Currency where
  "XTS = \<lparr>Code = ''XTS'', Fraction = 2, Grapheme = ''#'', Template = ''1 $'',
          Decimal = [CHR 0xD9, CHR 0xAB], Thousand = []\<rparr>"

definition GetCurrency_custom :: "string \<Rightarrow> Currency option" where
  "GetCurrency_custom code = (if code = ''XTS'' then Some XTS else GetCurrency_tests code)"

section \<open>Facts about int64 arithmetic\<close>

lemma wrap64_id: "is_int64 x \<Longrightarrow> wrap64 x = x"
  by (simp add: is_int64_def wrap64_def)

lemma is_int64_wrap64: "is_int64 (wrap64 x)"
  by (simp add: is_int64_def wrap64_def)

lemma sdiv_pos_bounds:
  fixes a n :: int
  assumes "0 < n"
  shows "0 \<le> a \<Longrightarrow> 0 \<le> a sdiv n \<and> a sdiv n \<le> a"
    and "a \<le> 0 \<Longrightarrow> a \<le> a sdiv n \<and> a sdiv n \<le> 0"
proof -
  have d: "\<bar>a\<bar> div n \<le> \<bar>a\<bar>" "0 \<le> \<bar>a\<bar> div n"
    using assms int_div_le_self[of "\<bar>a\<bar>" n]
    by (cases "a = 0"; simp add: pos_imp_zdiv_nonneg_iff)+
  show "0 \<le> a \<Longrightarrow> 0 \<le> a sdiv n \<and> a sdiv n \<le> a"
    using assms d by (auto simp: signed_divide_int_def sgn_if)
  show "a \<le> 0 \<Longrightarrow> a \<le> a sdiv n \<and> a sdiv n \<le> 0"
    using assms d by (auto simp: signed_divide_int_def sgn_if)
qed

lemma is_int64_sdiv:
  "is_int64 a \<Longrightarrow> 0 < n \<Longrightarrow> is_int64 (a sdiv n)"
  using sdiv_pos_bounds[of n a] by (cases "0 \<le> a") (auto simp: is_int64_def)

lemma smod_pos_bounds:
  fixes a n :: int
  assumes "0 < n"
  shows "\<bar>a smod n\<bar> < n"
    and "0 \<le> a \<Longrightarrow> 0 \<le> a smod n"
    and "a < 0 \<Longrightarrow> a smod n \<le> 0"
  using assms smod_int_compares[of a n] by (cases "0 \<le> a"; auto)+

lemma sdiv_step:
  fixes a n :: int
  assumes "0 < n" "a smod n \<noteq> 0"
  shows "0 \<le> a \<Longrightarrow> a sdiv n + 1 \<le> a"
    and "a < 0 \<Longrightarrow> a \<le> a sdiv n - 1"
proof -
  have e: "a sdiv n * n + a smod n = a" by (rule sdiv_mult_smod_eq)
  {
    assume a: "0 \<le> a"
    have q: "0 \<le> a sdiv n" using sdiv_pos_bounds(1)[OF assms(1) a] by simp
    have r: "1 \<le> a smod n" using smod_pos_bounds(2)[OF assms(1) a] assms(2) by simp
    have "a sdiv n \<le> a sdiv n * n" using q assms(1) by (simp add: mult_le_cancel_left1)
    then show "a sdiv n + 1 \<le> a" using e r by linarith
  }
  {
    assume a: "a < 0"
    have q: "a sdiv n \<le> 0" using sdiv_pos_bounds(2)[OF assms(1)] a by simp
    have r: "a smod n \<le> - 1" using smod_pos_bounds(3)[OF assms(1) a] assms(2) by simp
    have "a sdiv n * n \<le> a sdiv n" using q assms(1) by (simp add: mult_le_cancel_left2)
    then show "a \<le> a sdiv n - 1" using e r by linarith
  }
qed

section \<open>Split: what the loops compute\<close>

lemma Split_loop_eq:
  "p + k \<le> length ms \<Longrightarrow> int k < 2 ^ 63 \<Longrightarrow>
   Split_loop p (int k) v ms =
     Inr (take p ms @ map (\<lambda>x. x\<lparr>amount := calc_add (amount x) v\<rparr>) (take k (drop p ms))
          @ drop (p + k) ms)"
proof (induction k arbitrary: p ms)
  case 0
  then show ?case by (simp add: Split_loop.simps)
next
  case (Suc k)
  let ?f = "\<lambda>x. x\<lparr>amount := calc_add (amount x) v\<rparr>"
  let ?ms = "ms[p := ?f (ms ! p)]"
  have p: "p < length ms" using Suc.prems by simp
  have w: "wrap64 (int (Suc k) - 1) = int k"
    using Suc.prems by (simp add: wrap64_id is_int64_def)
  have "Split_loop p (int (Suc k)) v ms = Split_loop (p + 1) (int k) v ?ms"
    using p w by (subst Split_loop.simps) simp
  also have "\<dots> = Inr (take (p + 1) ?ms @ map ?f (take k (drop (p + 1) ?ms)) @ drop (p + 1 + k) ?ms)"
    using Suc.prems by (intro Suc.IH) auto
  also have "take (p + 1) ?ms = take p ms @ [?f (ms ! p)]"
    using p by (simp add: take_Suc_conv_app_nth)
  also have "drop (p + 1) ?ms = drop (p + 1) ms" by simp
  also have "drop (p + 1 + k) ?ms = drop (p + Suc k) ms" by simp
  also have "(take p ms @ [?f (ms ! p)]) @ map ?f (take k (drop (p + 1) ms)) @ drop (p + Suc k) ms
     = take p ms @ map ?f (take (Suc k) (drop p ms)) @ drop (p + Suc k) ms"
    using p by (simp add: Cons_nth_drop_Suc[symmetric])
  finally show ?case .
qed

lemma Split_eq:
  assumes a: "is_int64 (amount m)" and n: "0 < n" "n < 2 ^ 63"
  shows "Split m n =
    Inr (replicate (nat \<bar>amount m smod n\<bar>)
           \<lparr>amount = amount m sdiv n + (if amount m < 0 then - 1 else 1), currency = currency m\<rparr>
         @ replicate (nat n - nat \<bar>amount m smod n\<bar>)
           \<lparr>amount = amount m sdiv n, currency = currency m\<rparr>)"
proof -
  let ?a = "amount m"
  let ?q = "?a sdiv n" and ?r = "?a smod n"
  let ?v = "if ?a < 0 then - 1 else 1 :: int"
  let ?f = "\<lambda>x. x\<lparr>amount := calc_add (amount x) ?v\<rparr>"
  let ?base = "\<lparr>amount = ?q, currency = currency m\<rparr>"
  let ?k = "nat \<bar>?r\<bar>"
  have q: "calc_divide ?a n = ?q"
    using is_int64_sdiv[OF a n(1)] by (simp add: calc_divide_def wrap64_id)
  have rb: "\<bar>?r\<bar> < n" using smod_pos_bounds(1)[OF n(1)] .
  have l: "calc_absolute (calc_modulus ?a n) = int ?k"
    using rb n(2) by (auto simp: calc_absolute_def calc_modulus_def wrap64_id is_int64_def)
  have k: "?k \<le> nat n" "int ?k < 2 ^ 63" using rb n by auto
  have "Split m n = Split_loop 0 (int ?k) ?v (replicate (nat n) ?base)"
    using n(1) by (simp add: Split_def Let_def q l del: of_nat_nat)
  also have "\<dots> = Inr (replicate ?k (?f ?base) @ replicate (nat n - ?k) ?base)"
    using k by (subst Split_loop_eq) (simp_all del: of_nat_nat)
  also have "?f ?base = \<lparr>amount = ?q + ?v, currency = currency m\<rparr>" if "?k \<noteq> 0"
  proof -
    have r0: "?r \<noteq> 0" using that by auto
    have "is_int64 (?q + ?v)"
    proof (cases "?a < 0")
      case True
      then have "?a \<le> ?q - 1" "?q \<le> 0"
        using sdiv_step(2)[OF n(1) r0] sdiv_pos_bounds(2)[OF n(1), of ?a] by auto
      then show ?thesis using a True by (simp add: is_int64_def)
    next
      case False
      then have "?q + 1 \<le> ?a" "0 \<le> ?q"
        using sdiv_step(1)[OF n(1) r0] sdiv_pos_bounds(1)[OF n(1), of ?a] by auto
      then show ?thesis using a False by (simp add: is_int64_def)
    qed
    then show ?thesis by (simp add: calc_add_def wrap64_id)
  qed
  then have "replicate ?k (?f ?base) = replicate ?k \<lparr>amount = ?q + ?v, currency = currency m\<rparr>"
    by (cases "?k = 0") simp_all
  finally show ?thesis
    by (simp del: of_nat_nat)
qed

lemma Split_sum:
  assumes a: "is_int64 (amount m)" and n: "0 < n" "n < 2 ^ 63" and s: "Split m n = Inr ms"
  shows "sum_list (map amount ms) = amount m"
proof -
  let ?a = "amount m"
  let ?q = "?a sdiv n" and ?r = "?a smod n"
  have rb: "\<bar>?r\<bar> < n" using smod_pos_bounds(1)[OF n(1)] .
  have sg: "\<bar>?r\<bar> * (if ?a < 0 then - 1 else 1) = ?r"
    using smod_pos_bounds(2,3)[OF n(1), of ?a] by (cases "?a < 0") auto
  have "sum_list (map amount ms) =
      \<bar>?r\<bar> * (?q + (if ?a < 0 then - 1 else 1)) + (n - \<bar>?r\<bar>) * ?q"
    using s rb n unfolding Split_eq[OF a n]
    by (auto simp: sum_list_replicate of_nat_diff simp del: of_nat_nat)
  also have "\<dots> = ?q * n + \<bar>?r\<bar> * (if ?a < 0 then - 1 else 1)"
    by (simp add: algebra_simps)
  also have "\<dots> = ?a" unfolding sg by (rule sdiv_mult_smod_eq)
  finally show ?thesis .
qed

section \<open>Split fairness\<close>

text \<open>
  C2. For every int64 amount and every \<open>n > 0\<close>, \<^verbatim>\<open>Split\<close> returns \<open>n\<close> shares: each is the
  truncating quotient \<open>a / n\<close>, and exactly the first \<open>|a % n|\<close> of them (fewer than \<open>n\<close>), in
  list order, carry one extra unit of the sign of \<open>a\<close>; so any two shares differ by at most
  one unit. In particular splitting 100 three ways gives 34, 33, 33 and splitting -101 four
  ways gives -26, -25, -25, -25.
\<close>

theorem Split_fairness:
  "(is_int64 (amount m) \<and> 0 < n \<and> n < 2 ^ 63 \<longrightarrow>
      Split m n =
        Inr (replicate (nat \<bar>amount m smod n\<bar>)
               \<lparr>amount = amount m sdiv n + (if amount m < 0 then - 1 else 1),
                currency = currency m\<rparr>
             @ replicate (nat n - nat \<bar>amount m smod n\<bar>)
               \<lparr>amount = amount m sdiv n, currency = currency m\<rparr>)
      \<and> \<bar>amount m smod n\<bar> < n
      \<and> (\<forall>ms. Split m n = Inr ms \<longrightarrow>
            length ms = nat n \<and> (\<forall>x \<in> set ms. \<forall>y \<in> set ms. \<bar>amount x - amount y\<bar> \<le> 1)))
   \<and> Split \<lparr>amount = 100, currency = c\<rparr> 3 =
       Inr [\<lparr>amount = 34, currency = c\<rparr>, \<lparr>amount = 33, currency = c\<rparr>,
            \<lparr>amount = 33, currency = c\<rparr>]
   \<and> Split \<lparr>amount = - 101, currency = c\<rparr> 4 =
       Inr [\<lparr>amount = - 26, currency = c\<rparr>, \<lparr>amount = - 25, currency = c\<rparr>,
            \<lparr>amount = - 25, currency = c\<rparr>, \<lparr>amount = - 25, currency = c\<rparr>]"
proof (intro conjI impI)
  assume h: "is_int64 (amount m) \<and> 0 < n \<and> n < 2 ^ 63"
  then have a: "is_int64 (amount m)" and n: "0 < n" "n < 2 ^ 63" by simp_all
  show e: "Split m n =
        Inr (replicate (nat \<bar>amount m smod n\<bar>)
               \<lparr>amount = amount m sdiv n + (if amount m < 0 then - 1 else 1),
                currency = currency m\<rparr>
             @ replicate (nat n - nat \<bar>amount m smod n\<bar>)
               \<lparr>amount = amount m sdiv n, currency = currency m\<rparr>)"
    by (rule Split_eq[OF a n])
  show rb: "\<bar>amount m smod n\<bar> < n" by (rule smod_pos_bounds(1)[OF n(1)])
  show "\<forall>ms. Split m n = Inr ms \<longrightarrow>
            length ms = nat n \<and> (\<forall>x \<in> set ms. \<forall>y \<in> set ms. \<bar>amount x - amount y\<bar> \<le> 1)"
    using rb n unfolding e by (auto simp del: of_nat_nat)
next
  have i: "is_int64 100" "is_int64 (- 101)" by (simp_all add: is_int64_def)
  show "Split \<lparr>amount = 100, currency = c\<rparr> 3 =
       Inr [\<lparr>amount = 34, currency = c\<rparr>, \<lparr>amount = 33, currency = c\<rparr>,
            \<lparr>amount = 33, currency = c\<rparr>]"
    using i by (subst Split_eq)
      (simp_all add: signed_divide_int_def signed_modulo_int_def numeral_eq_Suc)
  show "Split \<lparr>amount = - 101, currency = c\<rparr> 4 =
       Inr [\<lparr>amount = - 26, currency = c\<rparr>, \<lparr>amount = - 25, currency = c\<rparr>,
            \<lparr>amount = - 25, currency = c\<rparr>, \<lparr>amount = - 25, currency = c\<rparr>]"
    using i by (subst Split_eq)
      (simp_all add: signed_divide_int_def signed_modulo_int_def numeral_eq_Suc)
qed

theorem Split_fairness_witness:
  "is_int64 (- 2) \<and> (0::int) < 3 \<and> (3::int) < 2 ^ 63
   \<and> Split \<lparr>amount = - 2, currency = None\<rparr> 3 =
       Inr [\<lparr>amount = - 1, currency = None\<rparr>, \<lparr>amount = - 1, currency = None\<rparr>,
            \<lparr>amount = 0, currency = None\<rparr>]
   \<and> \<bar>(- 2) smod (3::int)\<bar> < 3"
  using Split_fairness[of "\<lparr>amount = - 2, currency = None\<rparr>" 3]
  by (simp add: is_int64_def signed_divide_int_def signed_modulo_int_def numeral_eq_Suc)


section \<open>Allocate: what the loops compute\<close>

lemma wrapu64_id: "0 \<le> x \<Longrightarrow> x < 2 ^ 64 \<Longrightarrow> wrapu64 x = x"
  by (simp add: wrapu64_def)

lemma sum_list_nonneg_ge:
  fixes xs :: "int list"
  shows "\<forall>x \<in> set xs. 0 \<le> x \<Longrightarrow> x \<in> set xs \<Longrightarrow> x \<le> sum_list xs"
  by (induction xs) (auto simp: sum_list_nonneg add_increasing add_increasing2)

lemma sum_list_nonpos_le:
  fixes xs :: "int list"
  shows "\<forall>x \<in> set xs. x \<le> 0 \<Longrightarrow> x \<in> set xs \<Longrightarrow> sum_list xs \<le> x"
  by (induction xs) (auto simp: sum_list_nonpos add_decreasing add_decreasing2)

lemma Allocate_sum_eq:
  "\<forall>r \<in> set rs. 0 \<le> r \<Longrightarrow> 0 \<le> acc \<Longrightarrow> acc + sum_list rs < 2 ^ 64 \<Longrightarrow>
   Allocate_sum rs acc = Inr (acc + sum_list rs)"
proof (induction rs arbitrary: acc)
  case Nil
  then show ?case by simp
next
  case (Cons r rs)
  have s: "0 \<le> sum_list rs" using Cons.prems(1) by (simp add: sum_list_nonneg)
  have r: "0 \<le> r" "r < 2 ^ 64" using Cons.prems s by auto
  have w: "wrapu64 (acc + wrapu64 r) = acc + r"
    using Cons.prems r s by (simp add: wrapu64_id)
  show ?case using Cons.prems r by (simp add: w Cons.IH add.assoc)
qed

lemma Allocate_parties_eq:
  "Allocate_parties m S rs ms tot =
     (ms @ map (\<lambda>r. \<lparr>amount = calc_allocate (amount m) (wrapu64 r) S, currency = currency m\<rparr>) rs,
      foldl (\<lambda>t r. wrap64 (t + calc_allocate (amount m) (wrapu64 r) S)) tot rs)"
  by (induction rs arbitrary: ms tot) (simp_all add: Let_def)

lemma foldl_wrap64_nonneg:
  "\<forall>x \<in> set xs. 0 \<le> f x \<Longrightarrow> 0 \<le> t \<Longrightarrow> t + sum_list (map f xs) < 2 ^ 63 \<Longrightarrow>
   foldl (\<lambda>t x. wrap64 (t + f x)) t xs = t + sum_list (map f xs)"
proof (induction xs arbitrary: t)
  case Nil
  then show ?case by simp
next
  case (Cons x xs)
  have s: "0 \<le> sum_list (map f xs)" using Cons.prems(1) by (intro sum_list_nonneg) auto
  have "is_int64 (t + f x)" using Cons.prems s by (simp add: is_int64_def)
  then have w: "wrap64 (t + f x) = t + f x" by (rule wrap64_id)
  show ?case using Cons.prems by (simp add: w Cons.IH add.assoc)
qed

lemma foldl_wrap64_nonpos:
  "\<forall>x \<in> set xs. f x \<le> 0 \<Longrightarrow> t \<le> 0 \<Longrightarrow> - (2 ^ 63) \<le> t + sum_list (map f xs) \<Longrightarrow>
   foldl (\<lambda>t x. wrap64 (t + f x)) t xs = t + sum_list (map f xs)"
proof (induction xs arbitrary: t)
  case Nil
  then show ?case by simp
next
  case (Cons x xs)
  have s: "sum_list (map f xs) \<le> 0" using Cons.prems(1) by (intro sum_list_nonpos) auto
  have "is_int64 (t + f x)" using Cons.prems s by (simp add: is_int64_def)
  then have w: "wrap64 (t + f x) = t + f x" by (rule wrap64_id)
  show ?case using Cons.prems by (simp add: w Cons.IH add.assoc)
qed

lemma Allocate_loop_eq:
  "p + k \<le> length ms \<Longrightarrow> is_int64 (sub * int k) \<Longrightarrow> sub = 1 \<or> sub = - 1 \<Longrightarrow>
   Allocate_loop p (sub * int k) sub ms =
     Inr (take p ms @ map (\<lambda>x. x\<lparr>amount := calc_add (amount x) sub\<rparr>) (take k (drop p ms))
          @ drop (p + k) ms)"
proof (induction k arbitrary: p ms)
  case 0
  then show ?case by (simp add: Allocate_loop.simps)
next
  case (Suc k)
  let ?f = "\<lambda>x. x\<lparr>amount := calc_add (amount x) sub\<rparr>"
  let ?ms = "ms[p := ?f (ms ! p)]"
  have p: "p < length ms" using Suc.prems by simp
  have i: "is_int64 (sub * int k)" using Suc.prems by (auto simp: is_int64_def)
  then have w: "wrap64 (sub * int (Suc k) - sub) = sub * int k"
    by (simp add: wrap64_id algebra_simps)
  have nz: "sub * int (Suc k) \<noteq> 0" using Suc.prems(3) by auto
  have "Allocate_loop p (sub * int (Suc k)) sub ms = Allocate_loop (p + 1) (sub * int k) sub ?ms"
    using p w nz by (subst Allocate_loop.simps) (simp del: of_nat_Suc)
  also have "\<dots> = Inr (take (p + 1) ?ms @ map ?f (take k (drop (p + 1) ?ms)) @ drop (p + 1 + k) ?ms)"
    using Suc.prems i by (intro Suc.IH) auto
  also have "take (p + 1) ?ms = take p ms @ [?f (ms ! p)]"
    using p by (simp add: take_Suc_conv_app_nth)
  also have "drop (p + 1) ?ms = drop (p + 1) ms" by simp
  also have "drop (p + 1 + k) ?ms = drop (p + Suc k) ms" by simp
  also have "(take p ms @ [?f (ms ! p)]) @ map ?f (take k (drop (p + 1) ms)) @ drop (p + Suc k) ms
     = take p ms @ map ?f (take (Suc k) (drop p ms)) @ drop (p + Suc k) ms"
    using p by (simp add: Cons_nth_drop_Suc[symmetric])
  finally show ?case .
qed

lemma share_sign:
  fixes a r S :: int
  assumes "0 < S" "0 \<le> r"
  shows "0 \<le> a \<Longrightarrow> 0 \<le> (a * r) sdiv S" and "a \<le> 0 \<Longrightarrow> (a * r) sdiv S \<le> 0"
proof -
  show "0 \<le> a \<Longrightarrow> 0 \<le> (a * r) sdiv S"
    using sdiv_pos_bounds(1)[OF assms(1), of "a * r"] assms(2) by simp
  show "a \<le> 0 \<Longrightarrow> (a * r) sdiv S \<le> 0"
    using sdiv_pos_bounds(2)[OF assms(1), of "a * r"] assms(2) by (simp add: mult_nonpos_nonneg)
qed

lemma sum_smod_eq:
  fixes a S :: int
  shows "sum_list (map (\<lambda>r. (a * r) smod S) rs) =
         a * sum_list rs - S * sum_list (map (\<lambda>r. (a * r) sdiv S) rs)"
proof (induction rs)
  case Nil
  then show ?case by simp
next
  case (Cons r rs)
  have "(a * r) smod S = a * r - S * ((a * r) sdiv S)"
    by (simp add: minus_mult_sdiv_eq_smod)
  then show ?case using Cons.IH by (simp add: algebra_simps)
qed

lemma sum_smod_bounds:
  fixes a S :: int
  assumes S: "0 < S" and r: "\<forall>r \<in> set rs. 0 \<le> r"
  shows "0 \<le> a \<Longrightarrow> 0 \<le> sum_list (map (\<lambda>r. (a * r) smod S) rs)
            \<and> sum_list (map (\<lambda>r. (a * r) smod S) rs) \<le> int (length rs) * (S - 1)"
    and "a \<le> 0 \<Longrightarrow> - (int (length rs) * (S - 1)) \<le> sum_list (map (\<lambda>r. (a * r) smod S) rs)
            \<and> sum_list (map (\<lambda>r. (a * r) smod S) rs) \<le> 0"
proof -
  show "0 \<le> a \<Longrightarrow> 0 \<le> sum_list (map (\<lambda>r. (a * r) smod S) rs)
            \<and> sum_list (map (\<lambda>r. (a * r) smod S) rs) \<le> int (length rs) * (S - 1)"
    using r
  proof (induction rs)
    case Nil
    then show ?case by simp
  next
    case (Cons x rs)
    have "0 \<le> a * x" using Cons.prems by simp
    then have "0 \<le> (a * x) smod S" "(a * x) smod S < S"
      using smod_int_compares(1,2)[of "a * x" S] S by auto
    then show ?case using Cons by (simp add: algebra_simps)
  qed
  show "a \<le> 0 \<Longrightarrow> - (int (length rs) * (S - 1)) \<le> sum_list (map (\<lambda>r. (a * r) smod S) rs)
            \<and> sum_list (map (\<lambda>r. (a * r) smod S) rs) \<le> 0"
    using r
  proof (induction rs)
    case Nil
    then show ?case by simp
  next
    case (Cons x rs)
    have "a * x \<le> 0" using Cons.prems by (simp add: mult_nonpos_nonneg)
    then have "(a * x) smod S \<le> 0" "- S < (a * x) smod S"
      using smod_int_compares(3,4)[of "a * x" S] S by auto
    then show ?case using Cons by (simp add: algebra_simps)
  qed
qed

lemma leftover_bounds:
  fixes a :: int
  assumes S: "0 < sum_list rs" and r: "\<forall>r \<in> set rs. 0 \<le> r"
  defines "T \<equiv> sum_list (map (\<lambda>r. (a * r) sdiv sum_list rs) rs)"
  shows "\<bar>a - T\<bar> < int (length rs)"
    and "0 \<le> a \<Longrightarrow> 0 \<le> T \<and> T \<le> a"
    and "a \<le> 0 \<Longrightarrow> a \<le> T \<and> T \<le> 0"
proof -
  let ?S = "sum_list rs"
  let ?R = "sum_list (map (\<lambda>r. (a * r) smod ?S) rs)"
  have e: "?S * (a - T) = ?R"
    unfolding T_def sum_smod_eq by (simp add: algebra_simps)
  have len: "0 < length rs" using S by (cases rs) auto
  have pos: "0 \<le> a - T \<and> a - T < int (length rs) \<and> 0 \<le> T" if a: "0 \<le> a"
  proof -
    have b: "0 \<le> ?R" "?R \<le> int (length rs) * (?S - 1)"
      using sum_smod_bounds(1)[OF S r a] by auto
    have "0 \<le> ?S * (a - T)" using b e by simp
    then have 1: "0 \<le> a - T" using S by (simp add: zero_le_mult_iff)
    have "int (length rs) * (?S - 1) < int (length rs) * ?S" using len by simp
    then have "?S * (a - T) < ?S * int (length rs)" using b e by (simp add: mult.commute)
    then have 2: "a - T < int (length rs)" using S by (simp add: mult_less_cancel_left_pos)
    have 3: "0 \<le> T" unfolding T_def using share_sign(1)[OF S _ a] r
      by (intro sum_list_nonneg) auto
    show ?thesis using 1 2 3 by simp
  qed
  have neg: "a - T \<le> 0 \<and> - int (length rs) < a - T \<and> T \<le> 0" if a: "a \<le> 0"
  proof -
    have b: "?R \<le> 0" "- (int (length rs) * (?S - 1)) \<le> ?R"
      using sum_smod_bounds(2)[OF S r a] by auto
    have "?S * (a - T) \<le> 0" using b e by simp
    then have 1: "a - T \<le> 0" using S by (simp add: mult_le_0_iff)
    have "- (int (length rs) * ?S) < - (int (length rs) * (?S - 1))" using len by simp
    then have "?S * (- int (length rs)) < ?S * (a - T)" using b e by (simp add: mult.commute)
    then have 2: "- int (length rs) < a - T" using S by (simp only: mult_less_cancel_left_pos)
    have 3: "T \<le> 0" unfolding T_def using share_sign(2)[OF S _ a] r
      by (intro sum_list_nonpos) auto
    show ?thesis using 1 2 3 by simp
  qed
  show "\<bar>a - T\<bar> < int (length rs)" using pos neg by (cases "0 \<le> a") auto
  show "0 \<le> a \<Longrightarrow> 0 \<le> T \<and> T \<le> a" using pos by auto
  show "a \<le> 0 \<Longrightarrow> a \<le> T \<and> T \<le> 0" using neg by auto
qed

lemma calc_allocate_eq:
  assumes "is_int64 (a * r)" "0 \<le> r" "r \<le> S" "0 < S" "S < 2 ^ 63"
  shows "calc_allocate a (wrapu64 r) S = (a * r) sdiv S"
proof -
  have r: "wrapu64 r = r" "wrap64 r = r" and S: "wrap64 S = S"
    using assms by (simp_all add: wrapu64_id wrap64_id is_int64_def)
  have "is_int64 ((a * r) sdiv S)" using assms by (intro is_int64_sdiv)
  then show ?thesis
    using assms by (simp add: calc_allocate_def calc_divide_def calc_multiply_def r S wrap64_id)
qed

lemma Allocate_eq:
  assumes a: "is_int64 (amount m)"
    and r: "\<forall>r \<in> set rs. 0 \<le> r"
    and pr: "\<forall>r \<in> set rs. is_int64 (amount m * r)"
    and S: "0 < sum_list rs" "sum_list rs < 2 ^ 63"
  defines "shs \<equiv> map (\<lambda>r. (amount m * r) sdiv sum_list rs) rs"
  defines "lo \<equiv> amount m - sum_list shs"
  shows "Allocate m rs =
     Inr (map (\<lambda>x. \<lparr>amount = x, currency = currency m\<rparr>)
           (map (\<lambda>x. x + (if lo < 0 then - 1 else 1)) (take (nat \<bar>lo\<bar>) shs) @ drop (nat \<bar>lo\<bar>) shs))"
proof -
  let ?a = "amount m" and ?S = "sum_list rs"
  let ?mk = "\<lambda>x. \<lparr>amount = x, currency = currency m\<rparr>"
  let ?sh = "\<lambda>r. (?a * r) sdiv ?S"
  let ?sub = "if lo < 0 then - 1 else 1 :: int"
  let ?k = "nat \<bar>lo\<bar>"
  let ?f = "\<lambda>x. x\<lparr>amount := calc_add (amount x) ?sub\<rparr>"
  have ne: "rs \<noteq> []" using S by auto
  have sum: "Allocate_sum rs 0 = Inr ?S"
    using Allocate_sum_eq[of rs 0] r S by simp
  have ca: "calc_allocate ?a (wrapu64 x) ?S = ?sh x" if "x \<in> set rs" for x
    using that r pr S sum_list_nonneg_ge[of rs x] by (intro calc_allocate_eq) auto
  have T: "sum_list (map ?sh rs) = sum_list shs" by (simp add: shs_def)
  have lb: "\<bar>lo\<bar> < int (length rs)"
    and lpos: "0 \<le> ?a \<Longrightarrow> 0 \<le> sum_list shs \<and> sum_list shs \<le> ?a"
    and lneg: "?a \<le> 0 \<Longrightarrow> ?a \<le> sum_list shs \<and> sum_list shs \<le> 0"
    using leftover_bounds[OF S(1) r, of ?a] unfolding lo_def shs_def by auto
  have fo: "foldl (\<lambda>t r. wrap64 (t + ?sh r)) 0 rs = sum_list shs"
  proof (cases "0 \<le> ?a")
    case True
    have "foldl (\<lambda>t r. wrap64 (t + ?sh r)) 0 rs = 0 + sum_list (map ?sh rs)"
      using share_sign(1)[OF S(1) _ True] r lpos[OF True] a T
      by (intro foldl_wrap64_nonneg) (auto simp: is_int64_def)
    then show ?thesis by (simp add: T)
  next
    case False
    then have F: "?a \<le> 0" by simp
    have "foldl (\<lambda>t r. wrap64 (t + ?sh r)) 0 rs = 0 + sum_list (map ?sh rs)"
      using share_sign(2)[OF S(1) _ F] r lneg[OF F] a T
      by (intro foldl_wrap64_nonpos) (auto simp: is_int64_def)
    then show ?thesis by (simp add: T)
  qed
  have par: "Allocate_parties m ?S rs [] 0 = (map ?mk shs, sum_list shs)"
  proof -
    have 1: "map (\<lambda>r. ?mk (calc_allocate ?a (wrapu64 r) ?S)) rs = map ?mk shs"
      unfolding shs_def map_map o_def by (rule map_cong[OF refl]) (simp add: ca)
    have 2: "foldl (\<lambda>t r. wrap64 (t + calc_allocate ?a (wrapu64 r) ?S)) 0 rs
           = foldl (\<lambda>t r. wrap64 (t + ?sh r)) 0 rs"
      by (rule foldl_cong) (simp_all add: ca)
    show ?thesis unfolding Allocate_parties_eq using 1 2 fo by simp
  qed
  have lw: "wrap64 (?a - sum_list shs) = lo"
  proof -
    have "is_int64 lo" using a lpos lneg unfolding lo_def is_int64_def
      by (cases "0 \<le> ?a") auto
    then show ?thesis unfolding lo_def by (rule wrap64_id)
  qed
  have li: "is_int64 lo" using a lpos lneg unfolding lo_def is_int64_def
    by (cases "0 \<le> ?a") auto
  have lk: "lo = ?sub * int ?k" by auto
  have "Allocate m rs = Allocate_loop 0 lo ?sub (map ?mk shs)"
    using ne S(1) by (simp add: Allocate_def sum par lw Let_def)
  also have "\<dots> = Allocate_loop 0 (?sub * int ?k) ?sub (map ?mk shs)"
    using lk by simp
  also have "\<dots> = Inr (map ?f (take ?k (map ?mk shs)) @ drop ?k (map ?mk shs))"
    using lb li lk Allocate_loop_eq[of 0 ?k "map ?mk shs" ?sub] by (auto simp: shs_def)
  also have "map ?f (take ?k (map ?mk shs)) = map ?mk (map (\<lambda>x. x + ?sub) (take ?k shs))"
  proof -
    have "calc_add x ?sub = x + ?sub" if x: "x \<in> set (take ?k shs)" for x
    proof -
      have xs: "x \<in> set shs" using x by (rule in_set_takeD)
      have k0: "lo \<noteq> 0" using x by auto
      have "is_int64 (x + ?sub)"
      proof (cases "lo < 0")
        case True
        then have an: "?a \<le> 0" using lpos unfolding lo_def by linarith
        have "\<forall>y \<in> set shs. y \<le> 0" using share_sign(2)[OF S(1) _ an] r by (auto simp: shs_def)
        then have "sum_list shs \<le> x" "x \<le> 0" using xs sum_list_nonpos_le[of shs x] by auto
        then show ?thesis using True a unfolding lo_def is_int64_def by auto
      next
        case False
        then have lp: "0 < lo" using k0 by simp
        then have an: "0 \<le> ?a" using lneg unfolding lo_def by linarith
        have "\<forall>y \<in> set shs. 0 \<le> y" using share_sign(1)[OF S(1) _ an] r by (auto simp: shs_def)
        then have "x \<le> sum_list shs" "0 \<le> x" using xs sum_list_nonneg_ge[of shs x] by auto
        then show ?thesis using lp a unfolding lo_def is_int64_def by auto
      qed
      then show ?thesis by (simp add: calc_add_def wrap64_id)
    qed
    then show ?thesis by (simp add: take_map)
  qed
  finally show ?thesis by (simp add: drop_map)
qed


lemma sum_list_bump_take:
  fixes xs :: "int list"
  shows "k \<le> length xs \<Longrightarrow>
    sum_list (map (\<lambda>x. x + c) (take k xs) @ drop k xs) = sum_list xs + c * int k"
proof -
  assume k: "k \<le> length xs"
  have g: "sum_list (map (\<lambda>x. x + c) ys) = sum_list ys + c * int (length ys)" for ys :: "int list"
    by (induction ys) (simp_all add: algebra_simps)
  have "sum_list (map (\<lambda>x. x + c) (take k xs)) = sum_list (take k xs) + c * int (length (take k xs))"
    by (rule g)
  hence "sum_list (map (\<lambda>x. x + c) (take k xs) @ drop k xs)
      = (sum_list (take k xs) + sum_list (drop k xs)) + c * int k"
    using k by (simp add: min_absorb2)
  also have "sum_list (take k xs) + sum_list (drop k xs) = sum_list xs"
    by (simp flip: sum_list_append)
  finally show ?thesis .
qed

lemma Allocate_sum_amounts:
  assumes a: "is_int64 (amount m)"
    and r: "\<forall>r \<in> set rs. 0 \<le> r"
    and pr: "\<forall>r \<in> set rs. is_int64 (amount m * r)"
    and S: "0 < sum_list rs" "sum_list rs < 2 ^ 63"
  shows "\<exists>ms. Allocate m rs = Inr ms \<and> length ms = length rs
            \<and> sum_list (map amount ms) = amount m"
proof -
  define shs where "shs = map (\<lambda>r. (amount m * r) sdiv sum_list rs) rs"
  define lo where "lo = amount m - sum_list shs"
  have lb: "\<bar>lo\<bar> < int (length rs)"
    using leftover_bounds(1)[OF S(1) r, of "amount m"] unfolding lo_def shs_def by simp
  then have k: "nat \<bar>lo\<bar> \<le> length shs" by (simp add: shs_def)
  have e: "Allocate m rs =
     Inr (map (\<lambda>x. \<lparr>amount = x, currency = currency m\<rparr>)
           (map (\<lambda>x. x + (if lo < 0 then - 1 else 1)) (take (nat \<bar>lo\<bar>) shs) @ drop (nat \<bar>lo\<bar>) shs))"
    unfolding lo_def shs_def by (rule Allocate_eq[OF a r pr S])
  have "sum_list (map (\<lambda>x. x + (if lo < 0 then - 1 else 1)) (take (nat \<bar>lo\<bar>) shs) @ drop (nat \<bar>lo\<bar>) shs)
      = sum_list shs + (if lo < 0 then - 1 else 1) * int (nat \<bar>lo\<bar>)"
    by (rule sum_list_bump_take[OF k])
  also have "\<dots> = amount m" unfolding lo_def by auto
  finally have s: "sum_list (map (\<lambda>x. x + (if lo < 0 then - 1 else 1)) (take (nat \<bar>lo\<bar>) shs) @ drop (nat \<bar>lo\<bar>) shs) = amount m" .
  have l: "length (map (\<lambda>x. x + (if lo < 0 then - 1 else 1)) (take (nat \<bar>lo\<bar>) shs) @ drop (nat \<bar>lo\<bar>) shs) = length rs"
    using k by (simp add: shs_def)
  show ?thesis unfolding e using s l by (simp add: o_def del: map_append)
qed

lemma Allocate_zero:
  assumes "rs \<noteq> []" "\<forall>r \<in> set rs. r = 0"
  shows "Allocate m rs = Inr (replicate (length rs) \<lparr>amount = 0, currency = currency m\<rparr>)"
proof -
  have rs: "rs = replicate (length rs) 0"
    using assms(2) by (metis replicate_length_same)
  have s: "Allocate_sum (replicate k 0) 0 = Inr 0" for k
    by (induction k) (simp_all add: wrapu64_def)
  have p: "Allocate_parties m 0 (replicate k 0) ms 0 =
      (ms @ replicate k \<lparr>amount = 0, currency = currency m\<rparr>, 0)" for k ms
    by (induction k arbitrary: ms) (simp_all add: calc_allocate_def wrap64_def replicate_app_Cons_same Let_def)
  have "Allocate m (replicate (length rs) 0) =
     Inr (replicate (length rs) \<lparr>amount = 0, currency = currency m\<rparr>)"
    using assms(1) by (simp add: Allocate_def s p)
  then show ?thesis using rs by simp
qed


section \<open>Conservation\<close>

text \<open>
  C1, as amended. The shares of \<^verbatim>\<open>Split\<close> sum exactly to the amount, for every int64 amount
  and every \<open>n > 0\<close>. The shares of \<^verbatim>\<open>Allocate\<close> sum exactly to the amount when the ratios
  are non-negative, their sum is positive and nothing overflows (the ratio sum stays below
  \<open>2^63\<close> and every product \<open>a * r\<close> fits int64). When every ratio is zero, every party
  receives 0, whatever the amount: the sum of the shares is then 0, not the amount.
\<close>

theorem conservation:
  "(is_int64 (amount m) \<and> 0 < n \<and> n < 2 ^ 63 \<longrightarrow>
      (\<exists>ms. Split m n = Inr ms \<and> length ms = nat n \<and> sum_list (map amount ms) = amount m))
   \<and> (is_int64 (amount m) \<and> (\<forall>r \<in> set rs. 0 \<le> r \<and> is_int64 (amount m * r))
        \<and> 0 < sum_list rs \<and> sum_list rs < 2 ^ 63 \<longrightarrow>
      (\<exists>ms. Allocate m rs = Inr ms \<and> length ms = length rs
            \<and> sum_list (map amount ms) = amount m))
   \<and> (rs \<noteq> [] \<and> (\<forall>r \<in> set rs. r = 0) \<longrightarrow>
      Allocate m rs = Inr (replicate (length rs) \<lparr>amount = 0, currency = currency m\<rparr>))"
proof (intro conjI impI)
  assume h: "is_int64 (amount m) \<and> 0 < n \<and> n < 2 ^ 63"
  then have a: "is_int64 (amount m)" and n: "0 < n" "n < 2 ^ 63" by simp_all
  have rb: "\<bar>amount m smod n\<bar> < n" by (rule smod_pos_bounds(1)[OF n(1)])
  obtain ms where ms: "Split m n = Inr ms" using Split_eq[OF a n] by blast
  have "length ms = nat n" using ms rb n unfolding Split_eq[OF a n] by (auto simp del: of_nat_nat)
  moreover have "sum_list (map amount ms) = amount m" by (rule Split_sum[OF a n ms])
  ultimately show "\<exists>ms. Split m n = Inr ms \<and> length ms = nat n
      \<and> sum_list (map amount ms) = amount m"
    using ms by blast
next
  assume h: "is_int64 (amount m) \<and> (\<forall>r \<in> set rs. 0 \<le> r \<and> is_int64 (amount m * r))
        \<and> 0 < sum_list rs \<and> sum_list rs < 2 ^ 63"
  then show "\<exists>ms. Allocate m rs = Inr ms \<and> length ms = length rs
            \<and> sum_list (map amount ms) = amount m"
    by (intro Allocate_sum_amounts) auto
next
  assume "rs \<noteq> [] \<and> (\<forall>r \<in> set rs. r = 0)"
  then show "Allocate m rs = Inr (replicate (length rs) \<lparr>amount = 0, currency = currency m\<rparr>)"
    by (intro Allocate_zero) auto
qed

text \<open>The theorem at the amount 5, split three ways and allocated 50:25:25 and 0:0.\<close>

theorem conservation_witness:
  "is_int64 5 \<and> (0::int) < 3 \<and> (3::int) < 2 ^ 63
   \<and> (\<exists>ms. Split \<lparr>amount = 5, currency = None\<rparr> 3 = Inr ms \<and> length ms = 3
          \<and> sum_list (map amount ms) = 5)
   \<and> is_int64 (5 * 50) \<and> is_int64 (5 * 25) \<and> (0::int) < sum_list [50, 25, 25]
   \<and> sum_list [50, 25, 25] < (2::int) ^ 63
   \<and> (\<exists>ms. Allocate \<lparr>amount = 5, currency = None\<rparr> [50, 25, 25] = Inr ms \<and> length ms = 3
          \<and> sum_list (map amount ms) = 5)
   \<and> Allocate \<lparr>amount = 5, currency = None\<rparr> [0, 0] =
        Inr [\<lparr>amount = 0, currency = None\<rparr>, \<lparr>amount = 0, currency = None\<rparr>]"
  using conservation[of "\<lparr>amount = 5, currency = None\<rparr>" 3 "[50, 25, 25]"]
    conservation[of "\<lparr>amount = 5, currency = None\<rparr>" 3 "[0, 0]"]
  by (simp add: is_int64_def numeral_eq_Suc)

text \<open>
  C1 as stated fails: allocating 10 over the ratios 0:0 returns two zero shares
  (\<^verbatim>\<open>TestMoney_Allocate\<close> expects exactly this), and they do not sum to 10.
\<close>

theorem conservation_counterexample:
  "Allocate \<lparr>amount = 10, currency = None\<rparr> [0, 0] =
     Inr [\<lparr>amount = 0, currency = None\<rparr>, \<lparr>amount = 0, currency = None\<rparr>]
   \<and> sum_list (map amount [\<lparr>amount = 0, currency = None\<rparr>, \<lparr>amount = 0, currency = None\<rparr>])
       \<noteq> amount \<lparr>amount = 10, currency = None\<rparr>"
  by (simp add: Allocate_def wrapu64_def wrap64_def calc_allocate_def Let_def)

section \<open>Safety of the leftover loops\<close>

text \<open>
  C10, as amended. In \<^verbatim>\<open>Split\<close>, for every int64 amount and every \<open>n > 0\<close>, the absolute
  remainder is below \<open>n\<close> and the loop returns the \<open>n\<close> shares without indexing past them.
  In \<^verbatim>\<open>Allocate\<close>, when the ratios are non-negative, their sum is positive and below
  \<open>2^63\<close> (so the \<^verbatim>\<open>uint\<close> sum is the true sum) and every product \<open>a * r\<close> fits int64, the
  absolute leftover is below the number of ratios and the loop returns one share per ratio
  without indexing past them. Both loops terminate on every input: they advance \<open>p\<close> and
  stop with Go's index-out-of-range panic once \<open>p\<close> reaches the length of the slice.
\<close>

theorem leftover_loops_safe:
  "(is_int64 (amount m) \<and> 0 < n \<and> n < 2 ^ 63 \<longrightarrow>
      \<bar>calc_modulus (amount m) n\<bar> < n
      \<and> (\<exists>ms. Split m n = Inr ms \<and> length ms = nat n))
   \<and> (is_int64 (amount m) \<and> (\<forall>r \<in> set rs. 0 \<le> r \<and> is_int64 (amount m * r))
        \<and> 0 < sum_list rs \<and> sum_list rs < 2 ^ 63 \<longrightarrow>
      Allocate_sum rs 0 = Inr (sum_list rs)
      \<and> \<bar>amount m - sum_list (map (\<lambda>r. calc_allocate (amount m) (wrapu64 r) (sum_list rs)) rs)\<bar>
           < int (length rs)
      \<and> (\<exists>ms. Allocate m rs = Inr ms \<and> length ms = length rs))"
proof (intro conjI impI)
  assume h: "is_int64 (amount m) \<and> 0 < n \<and> n < 2 ^ 63"
  then have a: "is_int64 (amount m)" and n: "0 < n" "n < 2 ^ 63" by simp_all
  show rb: "\<bar>calc_modulus (amount m) n\<bar> < n"
    unfolding calc_modulus_def by (rule smod_pos_bounds(1)[OF n(1)])
  show "\<exists>ms. Split m n = Inr ms \<and> length ms = nat n"
    using rb n unfolding Split_eq[OF a n] calc_modulus_def by (auto simp del: of_nat_nat)
next
  assume h: "is_int64 (amount m) \<and> (\<forall>r \<in> set rs. 0 \<le> r \<and> is_int64 (amount m * r))
        \<and> 0 < sum_list rs \<and> sum_list rs < 2 ^ 63"
  then have a: "is_int64 (amount m)" and r: "\<forall>r \<in> set rs. 0 \<le> r"
    and pr: "\<forall>r \<in> set rs. is_int64 (amount m * r)"
    and S: "0 < sum_list rs" "sum_list rs < 2 ^ 63" by simp_all
  show "Allocate_sum rs 0 = Inr (sum_list rs)"
    using Allocate_sum_eq[of rs 0] r S by simp
  have "map (\<lambda>r. calc_allocate (amount m) (wrapu64 r) (sum_list rs)) rs
      = map (\<lambda>r. (amount m * r) sdiv sum_list rs) rs"
    using r pr S sum_list_nonneg_ge[of rs] by (intro map_cong[OF refl] calc_allocate_eq) auto
  then have "sum_list (map (\<lambda>r. calc_allocate (amount m) (wrapu64 r) (sum_list rs)) rs)
      = sum_list (map (\<lambda>r. (amount m * r) sdiv sum_list rs) rs)"
    by (rule arg_cong)
  then show "\<bar>amount m - sum_list (map (\<lambda>r. calc_allocate (amount m) (wrapu64 r) (sum_list rs)) rs)\<bar>
           < int (length rs)"
    using leftover_bounds(1)[OF S(1) r, of "amount m"] by simp
  show "\<exists>ms. Allocate m rs = Inr ms \<and> length ms = length rs"
    using Allocate_sum_amounts[OF a r pr S] by blast
qed

text \<open>The theorem at the amount -5, split three ways and allocated 50:25:25.\<close>

theorem leftover_loops_safe_witness:
  "is_int64 (- 5) \<and> (0::int) < 3 \<and> (3::int) < 2 ^ 63
   \<and> \<bar>calc_modulus (- 5) 3\<bar> < 3
   \<and> (\<exists>ms. Split \<lparr>amount = - 5, currency = None\<rparr> 3 = Inr ms \<and> length ms = 3)
   \<and> is_int64 (- 5 * 50) \<and> is_int64 (- 5 * 25) \<and> (0::int) < sum_list [50, 25, 25]
   \<and> sum_list [50, 25, 25] < (2::int) ^ 63
   \<and> Allocate_sum [50, 25, 25] 0 = Inr 100
   \<and> (\<exists>ms. Allocate \<lparr>amount = - 5, currency = None\<rparr> [50, 25, 25] = Inr ms \<and> length ms = 3)"
  using leftover_loops_safe[of "\<lparr>amount = - 5, currency = None\<rparr>" 3 "[50, 25, 25]"]
  by (simp add: is_int64_def numeral_eq_Suc)

text \<open>
  C10 as stated fails: the ratios \<open>2^63 - 1\<close>, \<open>2^63 - 1\<close>, 5 are non-negative Go ints, their
  sum wraps in the \<^verbatim>\<open>uint\<close> to 3, which is positive, the leftover of the amount 1 is then far
  larger than three, and the loop indexes \<^verbatim>\<open>ms[3]\<close>: an index-out-of-range panic.
\<close>

theorem leftover_loops_safe_counterexample:
  "Allocate_sum [9223372036854775807, 9223372036854775807, 5] 0 = Inr 3
   \<and> Allocate \<lparr>amount = 1, currency = None\<rparr>
        [9223372036854775807, 9223372036854775807, 5] = Inl PanicIndexOutOfRange"
  by (simp add: Allocate_def wrapu64_def wrap64_def calc_allocate_def calc_divide_def
      calc_multiply_def calc_add_def Allocate_loop.simps signed_divide_int_def Let_def)

section \<open>Currency safety\<close>

text \<open>
  C7. For two Money values with currencies, every binary operation (\<^verbatim>\<open>Equals\<close>,
  \<^verbatim>\<open>GreaterThan\<close>, \<^verbatim>\<open>GreaterThanOrEqual\<close>, \<^verbatim>\<open>LessThan\<close>, \<^verbatim>\<open>LessThanOrEqual\<close>, \<^verbatim>\<open>Compare\<close>,
  \<^verbatim>\<open>Add\<close>, \<^verbatim>\<open>Subtract\<close>) returns \<^verbatim>\<open>ErrCurrencyMismatch\<close> when the currency codes differ, next to
  a result that carries no comparison or sum (\<^verbatim>\<open>false\<close>, a nil \<^verbatim>\<open>*Money\<close>, or for \<^verbatim>\<open>Compare\<close> the
  receiver's own amount); when the codes are the same it returns no error and the result
  of comparing or combining the two amounts.
\<close>

theorem currency_safety:
  "currency m = Some c \<and> currency om = Some oc \<longrightarrow>
     (Code c \<noteq> Code oc \<longrightarrow>
        Equals m om = Inr (False, Some ErrCurrencyMismatch)
        \<and> GreaterThan m om = Inr (False, Some ErrCurrencyMismatch)
        \<and> GreaterThanOrEqual m om = Inr (False, Some ErrCurrencyMismatch)
        \<and> LessThan m om = Inr (False, Some ErrCurrencyMismatch)
        \<and> LessThanOrEqual m om = Inr (False, Some ErrCurrencyMismatch)
        \<and> Compare m om = Inr (amount m, Some ErrCurrencyMismatch)
        \<and> Add m om = Inr (None, Some ErrCurrencyMismatch)
        \<and> Subtract m om = Inr (None, Some ErrCurrencyMismatch))
     \<and> (Code c = Code oc \<longrightarrow>
        Equals m om = Inr (amount m = amount om, None)
        \<and> GreaterThan m om = Inr (amount m > amount om, None)
        \<and> GreaterThanOrEqual m om = Inr (amount m \<ge> amount om, None)
        \<and> LessThan m om = Inr (amount m < amount om, None)
        \<and> LessThanOrEqual m om = Inr (amount m \<le> amount om, None)
        \<and> Compare m om = Inr (compare m om, None)
        \<and> Add m om =
            Inr (Some \<lparr>amount = calc_add (amount m) (amount om), currency = currency m\<rparr>, None)
        \<and> Subtract m om =
            Inr (Some \<lparr>amount = calc_subtract (amount m) (amount om), currency = currency m\<rparr>,
                 None))"
  by (auto simp: Equals_def GreaterThan_def GreaterThanOrEqual_def LessThan_def
      LessThanOrEqual_def Compare_def Add_def Subtract_def assertSameCurrency_def
      SameCurrency_def equals_def compare_def)

text \<open>The theorem at 100 GBP against 200 EUR, and against 200 GBP.\<close>

theorem currency_safety_witness:
  "Code GBP \<noteq> Code EUR
   \<and> LessThan \<lparr>amount = 100, currency = Some GBP\<rparr> \<lparr>amount = 200, currency = Some EUR\<rparr>
       = Inr (False, Some ErrCurrencyMismatch)
   \<and> Add \<lparr>amount = 100, currency = Some GBP\<rparr> \<lparr>amount = 200, currency = Some EUR\<rparr>
       = Inr (None, Some ErrCurrencyMismatch)
   \<and> Compare \<lparr>amount = 100, currency = Some GBP\<rparr> \<lparr>amount = 200, currency = Some EUR\<rparr>
       = Inr (100, Some ErrCurrencyMismatch)
   \<and> LessThan \<lparr>amount = 100, currency = Some GBP\<rparr> \<lparr>amount = 200, currency = Some GBP\<rparr>
       = Inr (True, None)
   \<and> Compare \<lparr>amount = 200, currency = Some GBP\<rparr> \<lparr>amount = 100, currency = Some GBP\<rparr>
       = Inr (1, None)
   \<and> Add \<lparr>amount = 100, currency = Some GBP\<rparr> \<lparr>amount = 200, currency = Some GBP\<rparr>
       = Inr (Some \<lparr>amount = 300, currency = Some GBP\<rparr>, None)"
  using currency_safety[of "\<lparr>amount = 100, currency = Some GBP\<rparr>" GBP
      "\<lparr>amount = 200, currency = Some EUR\<rparr>" EUR]
    currency_safety[of "\<lparr>amount = 100, currency = Some GBP\<rparr>" GBP
      "\<lparr>amount = 200, currency = Some GBP\<rparr>" GBP]
    currency_safety[of "\<lparr>amount = 200, currency = Some GBP\<rparr>" GBP
      "\<lparr>amount = 100, currency = Some GBP\<rparr>" GBP]
  by (simp add: GBP_def EUR_def compare_def calc_add_def wrap64_def)

section \<open>Immutability and currency preservation\<close>

lemma Split_new_eq:
  "m < length h \<Longrightarrow>
   Split_new k a m ms h =
     (ms @ [length h ..< length h + k],
      h @ replicate k \<lparr>amount = a, currency = currency (h ! m)\<rparr>)"
proof (induction k arbitrary: ms h)
  case 0
  then show ?case by simp
next
  case (Suc k)
  have "[length h..<Suc (length h + k)] = length h # [Suc (length h)..<Suc (length h + k)]"
    by (simp add: upt_conv_Cons)
  then show ?case using Suc.prems
    by (simp add: alloc_def Suc.IH nth_append replicate_app_Cons_same)
qed

lemma Split_loop_s_frame:
  "Split_loop_s p l v ms h = (res, h') \<Longrightarrow>
   length h' = length h \<and> (\<forall>q. q \<notin> set ms \<longrightarrow> h' ! q = h ! q)
   \<and> (\<forall>q. currency (h' ! q) = currency (h ! q)) \<and> (\<forall>ms'. res = Inr ms' \<longrightarrow> ms' = ms)"
proof (induction p l v ms h rule: Split_loop_s.induct)
  case (1 p l v ms h)
  show ?case
  proof (cases "l = 0 \<or> length ms \<le> p")
    case True
    then show ?thesis using "1.prems" by (auto simp: Split_loop_s.simps[of p l v ms h] split: if_splits)
  next
    case False
    let ?h = "h[ms ! p := (h ! (ms ! p))\<lparr>amount := calc_add (amount (h ! (ms ! p))) v\<rparr>]"
    have r: "Split_loop_s (p + 1) (wrap64 (l - 1)) v ms ?h = (res, h')"
      using False "1.prems" by (simp add: Split_loop_s.simps[of p l v ms h])
    have IH: "length h' = length ?h \<and> (\<forall>q. q \<notin> set ms \<longrightarrow> h' ! q = ?h ! q)
      \<and> (\<forall>q. currency (h' ! q) = currency (?h ! q)) \<and> (\<forall>ms'. res = Inr ms' \<longrightarrow> ms' = ms)"
      using False r by (intro "1.IH") auto
    have p: "ms ! p \<in> set ms" using False by simp
    have c: "currency (?h ! q) = currency (h ! q)" for q
      by (cases "ms ! p < length h") (auto simp: nth_list_update list_update_beyond)
    have u: "?h ! q = h ! q" if "q \<notin> set ms" for q
      using that p by (intro nth_list_update_neq) auto
    show ?thesis using IH c u by simp
  qed
qed

lemma Allocate_loop_s_frame:
  "Allocate_loop_s p l v ms h = (res, h') \<Longrightarrow>
   length h' = length h \<and> (\<forall>q. q \<notin> set ms \<longrightarrow> h' ! q = h ! q)
   \<and> (\<forall>q. currency (h' ! q) = currency (h ! q)) \<and> (\<forall>ms'. res = Inr ms' \<longrightarrow> ms' = ms)"
proof (induction p l v ms h rule: Allocate_loop_s.induct)
  case (1 p l v ms h)
  show ?case
  proof (cases "l = 0 \<or> length ms \<le> p")
    case True
    then show ?thesis using "1.prems" by (auto simp: Allocate_loop_s.simps[of p l v ms h] split: if_splits)
  next
    case False
    let ?h = "h[ms ! p := (h ! (ms ! p))\<lparr>amount := calc_add (amount (h ! (ms ! p))) v\<rparr>]"
    have r: "Allocate_loop_s (p + 1) (wrap64 (l - v)) v ms ?h = (res, h')"
      using False "1.prems" by (simp add: Allocate_loop_s.simps[of p l v ms h])
    have IH: "length h' = length ?h \<and> (\<forall>q. q \<notin> set ms \<longrightarrow> h' ! q = ?h ! q)
      \<and> (\<forall>q. currency (h' ! q) = currency (?h ! q)) \<and> (\<forall>ms'. res = Inr ms' \<longrightarrow> ms' = ms)"
      using False r by (intro "1.IH") auto
    have p: "ms ! p \<in> set ms" using False by simp
    have c: "currency (?h ! q) = currency (h ! q)" for q
      by (cases "ms ! p < length h") (auto simp: nth_list_update list_update_beyond)
    have u: "?h ! q = h ! q" if "q \<notin> set ms" for q
      using that p by (intro nth_list_update_neq) auto
    show ?thesis using IH c u by simp
  qed
qed

lemma Allocate_parties_s_eq:
  "m < length h \<Longrightarrow>
   \<exists>tot'. Allocate_parties_s m rsum rs ms tot h =
     (ms @ [length h ..< length h + length rs], tot',
      h @ map (\<lambda>r. \<lparr>amount = calc_allocate (amount (h ! m)) (wrapu64 r) rsum,
                      currency = currency (h ! m)\<rparr>) rs)"
proof (induction rs arbitrary: ms tot h)
  case Nil
  then show ?case by simp
next
  case (Cons r rs)
  let ?v = "\<lparr>amount = calc_allocate (amount (h ! m)) (wrapu64 r) rsum, currency = currency (h ! m)\<rparr>"
  let ?h = "h @ [?v]"
  have u: "[length h..<length h + length (r # rs)] = length h # [length ?h..<length ?h + length rs]"
    by (subst upt_rec) simp
  have m': "m < length ?h" and hm: "?h ! m = h ! m" using Cons.prems by (simp_all add: nth_append)
  obtain tot' where "Allocate_parties_s m rsum rs (ms @ [length h]) (wrap64 (tot + amount (?h ! length h))) ?h =
     ((ms @ [length h]) @ [length ?h ..< length ?h + length rs], tot',
      ?h @ map (\<lambda>r. \<lparr>amount = calc_allocate (amount (?h ! m)) (wrapu64 r) rsum,
                      currency = currency (?h ! m)\<rparr>) rs)"
    using Cons.IH[OF m'] by blast
  then have "Allocate_parties_s m rsum (r # rs) ms tot h =
     (ms @ [length h ..< length h + length (r # rs)], tot',
      h @ map (\<lambda>r. \<lparr>amount = calc_allocate (amount (h ! m)) (wrapu64 r) rsum,
                      currency = currency (h ! m)\<rparr>) (r # rs))"
    unfolding u hm by (simp add: alloc_def)
  then show ?case by blast
qed

lemma kept_refl: "kept h h"
  by (simp add: kept_def)

lemma kept_alloc: "alloc h v = (p, h') \<Longrightarrow> kept h h' \<and> new_in h h' p \<and> h' ! p = v"
  by (auto simp: alloc_def kept_def new_in_def)

lemma keptI:
  assumes "length h \<le> length h'" "\<And>q. q < length h \<Longrightarrow> h' ! q = h ! q"
  shows "kept h h'"
  unfolding kept_def using assms by (auto intro!: nth_equalityI)

lemma Split_s_frame:
  assumes m: "m < length h" and s: "Split_s h m n = (res, h')"
  shows "kept h h' \<and> (\<forall>ms. res = Inr ms \<longrightarrow>
           distinct ms \<and> (\<forall>p \<in> set ms. new_in h h' p \<and> currency (h' ! p) = currency (h ! m)))"
proof (cases "n \<le> 0")
  case True
  then show ?thesis using s by (auto simp: Split_s_def kept_refl)
next
  case False
  let ?a = "calc_divide (amount (h ! m)) n"
  let ?ms = "[length h ..< length h + nat n]"
  let ?h1 = "h @ replicate (nat n) \<lparr>amount = ?a, currency = currency (h ! m)\<rparr>"
  obtain l v where r: "Split_loop_s 0 l v ?ms ?h1 = (res, h')"
    using s m False by (simp add: Split_s_def Let_def Split_new_eq)
  have f: "length h' = length ?h1" "\<And>q. q \<notin> set ?ms \<Longrightarrow> h' ! q = ?h1 ! q"
    "\<And>q. currency (h' ! q) = currency (?h1 ! q)" "\<And>ms'. res = Inr ms' \<Longrightarrow> ms' = ?ms"
    using Split_loop_s_frame[OF r] by auto
  have k: "kept h h'"
  proof (rule keptI)
    show "length h \<le> length h'" using f(1) by simp
    show "h' ! q = h ! q" if "q < length h" for q
      using f(2)[of q] that by (simp add: nth_append)
  qed
  have c: "new_in h h' p \<and> currency (h' ! p) = currency (h ! m)" if "p \<in> set ?ms" for p
    using that f(1) f(3)[of p] by (auto simp: new_in_def nth_append)
  show ?thesis using k c f(4) by auto
qed

lemma Allocate_s_frame:
  assumes m: "m < length h" and s: "Allocate_s h m rs = (res, h')"
  shows "kept h h' \<and> (\<forall>ms. res = Inr ms \<longrightarrow>
           distinct ms \<and> (\<forall>p \<in> set ms. new_in h h' p \<and> currency (h' ! p) = currency (h ! m)))"
proof (cases "rs = [] \<or> (\<exists>e. Allocate_sum rs 0 = Inl e)")
  case True
  then show ?thesis using s by (auto simp: Allocate_s_def kept_refl split: if_splits)
next
  case False
  then obtain rsum where rsum: "Allocate_sum rs 0 = Inr rsum" by (cases "Allocate_sum rs 0") auto
  let ?ms = "[length h ..< length h + length rs]"
  let ?h1 = "h @ map (\<lambda>r. \<lparr>amount = calc_allocate (amount (h ! m)) (wrapu64 r) rsum,
                      currency = currency (h ! m)\<rparr>) rs"
  obtain tot where par: "Allocate_parties_s m rsum rs [] 0 h = (?ms, tot, ?h1)"
    using Allocate_parties_s_eq[OF m, of rsum rs "[]" 0] by auto
  have f: "length h' = length ?h1 \<and> (\<forall>q. q \<notin> set ?ms \<longrightarrow> h' ! q = ?h1 ! q)
    \<and> (\<forall>q. currency (h' ! q) = currency (?h1 ! q)) \<and> (\<forall>ms'. res = Inr ms' \<longrightarrow> ms' = ?ms)"
  proof (cases "rsum = 0")
    case True
    then show ?thesis using s m False rsum par by (auto simp: Allocate_s_def)
  next
    case nz: False
    obtain l v where r: "Allocate_loop_s 0 l v ?ms ?h1 = (res, h')"
      using s m False rsum par nz by (simp add: Allocate_s_def Let_def)
    show ?thesis by (rule Allocate_loop_s_frame[OF r])
  qed
  have k: "kept h h'"
  proof (rule keptI)
    show "length h \<le> length h'" using f by simp
    show "h' ! q = h ! q" if "q < length h" for q
      using f that by (simp add: nth_append)
  qed
  have c: "new_in h h' p \<and> currency (h' ! p) = currency (h ! m)" if "p \<in> set ?ms" for p
  proof -
    have "currency (?h1 ! p) = currency (h ! m)" using that by (auto simp: nth_append)
    then show ?thesis using that f by (auto simp: new_in_def)
  qed
  show ?thesis using k c f by auto
qed

text \<open>
  The frame of every call, whatever it returns: every Money value that existed before the
  call is unchanged after it, and every pointer returned was allocated by the call and
  carries the currency of the receiver.
\<close>

lemma operations_frame:
  "m < length h \<longrightarrow>
     (\<forall>p h'. Absolute_s h m = Inr (p, h') \<longrightarrow>
        kept h h' \<and> new_in h h' p \<and> currency (h' ! p) = currency (h ! m))
     \<and> (\<forall>p h'. Negative_s h m = Inr (p, h') \<longrightarrow>
        kept h h' \<and> new_in h h' p \<and> currency (h' ! p) = currency (h ! m))
     \<and> (\<forall>p h'. Multiply_s h m mul = Inr (p, h') \<longrightarrow>
        kept h h' \<and> new_in h h' p \<and> currency (h' ! p) = currency (h ! m))
     \<and> (\<forall>p h'. Round_s h m = Inr (p, h') \<longrightarrow>
        kept h h' \<and> new_in h h' p \<and> currency (h' ! p) = currency (h ! m))
     \<and> (\<forall>r err h'. Add_s h m om = Inr ((r, err), h') \<longrightarrow>
        kept h h' \<and> (\<forall>p. r = Some p \<longrightarrow>
          new_in h h' p \<and> currency (h' ! p) = currency (h ! m)))
     \<and> (\<forall>r err h'. Subtract_s h m om = Inr ((r, err), h') \<longrightarrow>
        kept h h' \<and> (\<forall>p. r = Some p \<longrightarrow>
          new_in h h' p \<and> currency (h' ! p) = currency (h ! m)))
     \<and> (\<forall>res h'. Split_s h m n = (res, h') \<longrightarrow>
        kept h h' \<and> (\<forall>ms. res = Inr ms \<longrightarrow>
          distinct ms \<and> (\<forall>p \<in> set ms. new_in h h' p \<and> currency (h' ! p) = currency (h ! m))))
     \<and> (\<forall>res h'. Allocate_s h m rs = (res, h') \<longrightarrow>
        kept h h' \<and> (\<forall>ms. res = Inr ms \<longrightarrow>
          distinct ms \<and> (\<forall>p \<in> set ms. new_in h h' p \<and> currency (h' ! p) = currency (h ! m))))"
proof (intro impI conjI allI)
  fix p h' assume m: "m < length h"
  { assume "Absolute_s h m = Inr (p, h')"
    then have a: "alloc h (Absolute (h ! m)) = (p, h')" using m by (simp add: Absolute_s_def)
    show "kept h h'" "new_in h h' p" "currency (h' ! p) = currency (h ! m)"
      using kept_alloc[OF a] by (simp_all add: Absolute_def) }
  { assume "Negative_s h m = Inr (p, h')"
    then have a: "alloc h (Negative (h ! m)) = (p, h')" using m by (simp add: Negative_s_def)
    show "kept h h'" "new_in h h' p" "currency (h' ! p) = currency (h ! m)"
      using kept_alloc[OF a] by (simp_all add: Negative_def) }
  { assume "Multiply_s h m mul = Inr (p, h')"
    then have a: "alloc h (Multiply (h ! m) mul) = (p, h')" using m by (simp add: Multiply_s_def)
    show "kept h h'" "new_in h h' p" "currency (h' ! p) = currency (h ! m)"
      using kept_alloc[OF a] by (simp_all add: Multiply_def) }
  { assume "Round_s h m = Inr (p, h')"
    then obtain v where v: "Round (h ! m) = Inr v" and a: "alloc h v = (p, h')"
      using m by (auto simp: Round_s_def split: sum.splits)
    have "currency v = currency (h ! m)" using v by (auto simp: Round_def split: option.splits)
    then show "kept h h'" "new_in h h' p" "currency (h' ! p) = currency (h ! m)"
      using kept_alloc[OF a] by simp_all }
next
  fix r err h' assume m: "m < length h"
  { assume s: "Add_s h m om = Inr ((r, err), h')"
    show "kept h h'"
      using s kept_alloc[of h _ _ h'] by (auto simp: Add_s_def kept_refl split: if_splits sum.splits option.splits prod.splits)
    fix p assume "r = Some p"
    then obtain v where v: "Add (h ! m) (h ! om) = Inr (Some v, err)" and a: "alloc h v = (p, h')"
      using s by (auto simp: Add_s_def split: if_splits sum.splits option.splits prod.splits)
    have "currency v = currency (h ! m)"
      using v by (auto simp: Add_def split: sum.splits option.splits)
    then show "new_in h h' p" "currency (h' ! p) = currency (h ! m)"
      using kept_alloc[OF a] by simp_all }
  { assume s: "Subtract_s h m om = Inr ((r, err), h')"
    show "kept h h'"
      using s kept_alloc[of h _ _ h'] by (auto simp: Subtract_s_def kept_refl split: if_splits sum.splits option.splits prod.splits)
    fix p assume "r = Some p"
    then obtain v where v: "Subtract (h ! m) (h ! om) = Inr (Some v, err)" and a: "alloc h v = (p, h')"
      using s by (auto simp: Subtract_s_def split: if_splits sum.splits option.splits prod.splits)
    have "currency v = currency (h ! m)"
      using v by (auto simp: Subtract_def split: sum.splits option.splits)
    then show "new_in h h' p" "currency (h' ! p) = currency (h ! m)"
      using kept_alloc[OF a] by simp_all }
next
  fix res h' assume m: "m < length h"
  { assume s: "Split_s h m n = (res, h')"
    show "kept h h'" using Split_s_frame[OF m s] by simp
    fix ms assume "res = Inr ms"
    then show "distinct ms" "\<forall>p \<in> set ms. new_in h h' p \<and> currency (h' ! p) = currency (h ! m)"
      using Split_s_frame[OF m s] by simp_all }
  { assume s: "Allocate_s h m rs = (res, h')"
    show "kept h h'" using Allocate_s_frame[OF m s] by simp
    fix ms assume "res = Inr ms"
    then show "distinct ms" "\<forall>p \<in> set ms. new_in h h' p \<and> currency (h' ! p) = currency (h ! m)"
      using Allocate_s_frame[OF m s] by simp_all }
qed

text \<open>
  The calls in memory against the calls on values: when \<^verbatim>\<open>Split\<close> or \<^verbatim>\<open>Allocate\<close> returns
  the list \<open>vs\<close> for the receiver's value, the call in the store \<open>h\<close> returns pointers to
  \<open>length vs\<close> new cells and leaves the store \<open>h @ vs\<close>.
\<close>

lemma Split_loop_s_sim:
  "Split_loop p l v vs = Inr vs' \<Longrightarrow>
   Split_loop_s p l v [length h..<length h + length vs] (h @ vs)
     = (Inr [length h..<length h + length vs], h @ vs')"
proof (induction p l v vs rule: Split_loop.induct)
  case (1 p l v vs)
  let ?ms = "[length h..<length h + length vs]"
  show ?case
  proof (cases "l = 0")
    case True
    then show ?thesis using "1.prems"
      by (simp add: Split_loop.simps[of p 0] Split_loop_s.simps[of p 0])
  next
    case False
    then have p: "p < length vs" using "1.prems"
      by (simp add: Split_loop.simps[of p l v vs] split: if_splits)
    let ?vs = "vs[p := (vs ! p)\<lparr>amount := calc_add (amount (vs ! p)) v\<rparr>]"
    have r: "Split_loop (p + 1) (wrap64 (l - 1)) v ?vs = Inr vs'"
      using False p "1.prems" by (simp add: Split_loop.simps[of p l v vs])
    have IH: "Split_loop_s (p + 1) (wrap64 (l - 1)) v [length h..<length h + length ?vs] (h @ ?vs)
       = (Inr [length h..<length h + length ?vs], h @ vs')"
      using False p r by (intro "1.IH") auto
    have i: "?ms ! p = length h + p" using p by simp
    have u: "(h @ vs)[?ms ! p := ((h @ vs) ! (?ms ! p))\<lparr>amount := calc_add (amount ((h @ vs) ! (?ms ! p))) v\<rparr>]
        = h @ ?vs"
      unfolding i by (simp add: list_update_append nth_append)
    have "Split_loop_s p l v ?ms (h @ vs)
        = Split_loop_s (p + 1) (wrap64 (l - 1)) v ?ms (h @ ?vs)"
      using False p by (subst Split_loop_s.simps) (simp only: u, simp)
    then show ?thesis using IH by simp
  qed
qed

lemma Allocate_loop_s_sim:
  "Allocate_loop p lo sub vs = Inr vs' \<Longrightarrow>
   Allocate_loop_s p lo sub [length h..<length h + length vs] (h @ vs)
     = (Inr [length h..<length h + length vs], h @ vs')"
proof (induction p lo sub vs rule: Allocate_loop.induct)
  case (1 p lo sub vs)
  let ?ms = "[length h..<length h + length vs]"
  show ?case
  proof (cases "lo = 0")
    case True
    then show ?thesis using "1.prems"
      by (simp add: Allocate_loop.simps[of p 0] Allocate_loop_s.simps[of p 0])
  next
    case False
    then have p: "p < length vs" using "1.prems"
      by (simp add: Allocate_loop.simps[of p lo sub vs] split: if_splits)
    let ?vs = "vs[p := (vs ! p)\<lparr>amount := calc_add (amount (vs ! p)) sub\<rparr>]"
    have r: "Allocate_loop (p + 1) (wrap64 (lo - sub)) sub ?vs = Inr vs'"
      using False p "1.prems" by (simp add: Allocate_loop.simps[of p lo sub vs])
    have IH: "Allocate_loop_s (p + 1) (wrap64 (lo - sub)) sub [length h..<length h + length ?vs] (h @ ?vs)
       = (Inr [length h..<length h + length ?vs], h @ vs')"
      using False p r by (intro "1.IH") auto
    have i: "?ms ! p = length h + p" using p by simp
    have u: "(h @ vs)[?ms ! p := ((h @ vs) ! (?ms ! p))\<lparr>amount := calc_add (amount ((h @ vs) ! (?ms ! p))) sub\<rparr>]
        = h @ ?vs"
      unfolding i by (simp add: list_update_append nth_append)
    have "Allocate_loop_s p lo sub ?ms (h @ vs)
        = Allocate_loop_s (p + 1) (wrap64 (lo - sub)) sub ?ms (h @ ?vs)"
      using False p by (subst Allocate_loop_s.simps) (simp only: u, simp)
    then show ?thesis using IH by simp
  qed
qed

lemma Allocate_parties_s_sim:
  "m < length h \<Longrightarrow>
   Allocate_parties_s m rsum rs ms tot h =
     (ms @ [length h ..< length h + length rs],
      snd (Allocate_parties (h ! m) rsum rs vs tot),
      h @ map (\<lambda>r. \<lparr>amount = calc_allocate (amount (h ! m)) (wrapu64 r) rsum,
                      currency = currency (h ! m)\<rparr>) rs)"
proof (induction rs arbitrary: ms tot h vs)
  case Nil
  then show ?case by simp
next
  case (Cons r rs)
  let ?v = "\<lparr>amount = calc_allocate (amount (h ! m)) (wrapu64 r) rsum, currency = currency (h ! m)\<rparr>"
  let ?h = "h @ [?v]"
  have u: "[length h..<length h + length (r # rs)] = length h # [length ?h..<length ?h + length rs]"
    by (subst upt_rec) simp
  have m': "m < length ?h" and hm: "?h ! m = h ! m" using Cons.prems by (simp_all add: nth_append)
  note IH = Cons.IH[OF m', of "ms @ [length h]" "wrap64 (tot + amount (?h ! length h))" "vs @ [?v]"]
  show ?case
    unfolding u using IH unfolding hm by (simp add: alloc_def Let_def)
qed

lemma Split_s_sim:
  assumes m: "m < length h" and s: "Split (h ! m) n = Inr vs"
  shows "Split_s h m n = (Inr [length h..<length h + nat n], h @ vs)"
proof -
  have n: "\<not> n \<le> 0" using s by (auto simp: Split_def)
  let ?a = "calc_divide (amount (h ! m)) n"
  let ?vs = "replicate (nat n) \<lparr>amount = ?a, currency = currency (h ! m)\<rparr>"
  let ?l = "calc_absolute (calc_modulus (amount (h ! m)) n)"
  let ?v = "if amount (h ! m) < 0 then - 1 else (1::int)"
  have l: "Split_loop 0 ?l ?v ?vs = Inr vs" using s n by (simp add: Split_def Let_def)
  have hm: "(h @ ?vs) ! m = h ! m" using m by (simp add: nth_append)
  have "Split_s h m n = Split_loop_s 0 ?l ?v [length h..<length h + nat n] (h @ ?vs)"
    using m n by (simp add: Split_s_def Let_def Split_new_eq hm)
  also have "\<dots> = (Inr [length h..<length h + nat n], h @ vs)"
    using Split_loop_s_sim[OF l, of h] by simp
  finally show ?thesis .
qed

lemma Allocate_s_sim:
  assumes m: "m < length h" and s: "Allocate (h ! m) rs = Inr vs"
  shows "Allocate_s h m rs = (Inr [length h..<length h + length rs], h @ vs)"
proof -
  have ne: "rs \<noteq> []" using s by (auto simp: Allocate_def)
  obtain rsum where rsum: "Allocate_sum rs 0 = Inr rsum"
    using s ne by (cases "Allocate_sum rs 0") (auto simp: Allocate_def)
  let ?vs = "map (\<lambda>r. \<lparr>amount = calc_allocate (amount (h ! m)) (wrapu64 r) rsum,
                      currency = currency (h ! m)\<rparr>) rs"
  let ?tot = "foldl (\<lambda>t r. wrap64 (t + calc_allocate (amount (h ! m)) (wrapu64 r) rsum)) 0 rs"
  have pv: "Allocate_parties (h ! m) rsum rs [] 0 = (?vs, ?tot)"
    by (simp add: Allocate_parties_eq)
  have ps: "Allocate_parties_s m rsum rs [] 0 h = ([length h..<length h + length rs], ?tot, h @ ?vs)"
    using Allocate_parties_s_sim[OF m, of rsum rs "[]" 0 "[]"] by (simp add: pv)
  have hm: "(h @ ?vs) ! m = h ! m" using m by (simp add: nth_append)
  show ?thesis
  proof (cases "rsum = 0")
    case True
    then have "vs = ?vs" using s ne rsum pv by (simp add: Allocate_def)
    then show ?thesis using m ne rsum ps True by (simp add: Allocate_s_def)
  next
    case False
    let ?lo = "wrap64 (amount (h ! m) - ?tot)"
    let ?sub = "if ?lo < 0 then - 1 else (1::int)"
    have l: "Allocate_loop 0 ?lo ?sub ?vs = Inr vs"
      using s ne rsum pv False by (simp add: Allocate_def Let_def)
    have "Allocate_s h m rs = Allocate_loop_s 0 ?lo ?sub [length h..<length h + length rs] (h @ ?vs)"
      using m ne rsum ps False by (simp add: Allocate_s_def Let_def hm)
    also have "\<dots> = (Inr [length h..<length h + length rs], h @ vs)"
      using Allocate_loop_s_sim[OF l, of h] by simp
    finally show ?thesis .
  qed
qed

lemma Split_loop_length:
  "Split_loop p l v vs = Inr vs' \<Longrightarrow>
   length vs' = length vs \<and> map currency vs' = map currency vs"
proof (induction p l v vs rule: Split_loop.induct)
  case (1 p l v vs)
  show ?case
  proof (cases "l = 0")
    case True
    then show ?thesis using "1.prems" by (simp add: Split_loop.simps[of p 0])
  next
    case False
    then have p: "p < length vs" using "1.prems"
      by (simp add: Split_loop.simps[of p l v vs] split: if_splits)
    let ?vs = "vs[p := (vs ! p)\<lparr>amount := calc_add (amount (vs ! p)) v\<rparr>]"
    have r: "Split_loop (p + 1) (wrap64 (l - 1)) v ?vs = Inr vs'"
      using False p "1.prems" by (simp add: Split_loop.simps[of p l v vs])
    have IH: "length vs' = length ?vs \<and> map currency vs' = map currency ?vs"
      using False p r by (intro "1.IH") auto
    have "map currency ?vs = map currency vs"
      using p by (simp add: map_update list_update_same_conv)
    then show ?thesis using IH by simp
  qed
qed

lemma Allocate_loop_length:
  "Allocate_loop p lo sub vs = Inr vs' \<Longrightarrow>
   length vs' = length vs \<and> map currency vs' = map currency vs"
proof (induction p lo sub vs rule: Allocate_loop.induct)
  case (1 p lo sub vs)
  show ?case
  proof (cases "lo = 0")
    case True
    then show ?thesis using "1.prems" by (simp add: Allocate_loop.simps[of p 0])
  next
    case False
    then have p: "p < length vs" using "1.prems"
      by (simp add: Allocate_loop.simps[of p lo sub vs] split: if_splits)
    let ?vs = "vs[p := (vs ! p)\<lparr>amount := calc_add (amount (vs ! p)) sub\<rparr>]"
    have r: "Allocate_loop (p + 1) (wrap64 (lo - sub)) sub ?vs = Inr vs'"
      using False p "1.prems" by (simp add: Allocate_loop.simps[of p lo sub vs])
    have IH: "length vs' = length ?vs \<and> map currency vs' = map currency ?vs"
      using False p r by (intro "1.IH") auto
    have "map currency ?vs = map currency vs"
      using p by (simp add: map_update list_update_same_conv)
    then show ?thesis using IH by simp
  qed
qed

lemma map_currency_const:
  "map currency vs = replicate k c \<Longrightarrow> \<forall>x \<in> set vs. currency x = c"
proof
  fix x assume a: "map currency vs = replicate k c" "x \<in> set vs"
  have "currency x \<in> currency ` set vs" using a(2) by (rule imageI)
  then have "currency x \<in> set (map currency vs)" by (simp only: set_map)
  then have "currency x \<in> set (replicate k c)" unfolding a(1) .
  then show "currency x = c" by (simp split: if_splits)
qed

lemma Split_shape:
  assumes "Split m n = Inr vs"
  shows "length vs = nat n \<and> (\<forall>x \<in> set vs. currency x = currency m)"
proof -
  have n: "\<not> n \<le> 0" using assms by (auto simp: Split_def)
  obtain l v where "Split_loop 0 l v (replicate (nat n) \<lparr>amount = calc_divide (amount m) n, currency = currency m\<rparr>) = Inr vs"
    using assms n by (simp add: Split_def Let_def)
  from Split_loop_length[OF this]
  have "length vs = nat n" "map currency vs = replicate (nat n) (currency m)" by simp_all
  then show ?thesis using map_currency_const by blast
qed

lemma Allocate_shape:
  assumes "Allocate m rs = Inr vs"
  shows "length vs = length rs \<and> (\<forall>x \<in> set vs. currency x = currency m)"
proof -
  have ne: "rs \<noteq> []" using assms by (auto simp: Allocate_def)
  obtain rsum where rsum: "Allocate_sum rs 0 = Inr rsum"
    using assms ne by (cases "Allocate_sum rs 0") (auto simp: Allocate_def)
  let ?vs = "map (\<lambda>r. \<lparr>amount = calc_allocate (amount m) (wrapu64 r) rsum,
                      currency = currency m\<rparr>) rs"
  have c: "map currency ?vs = replicate (length rs) (currency m)"
    by (simp add: map_replicate_const comp_def)
  have "length vs = length ?vs \<and> map currency vs = map currency ?vs"
  proof (cases "rsum = 0")
    case True
    then have "vs = ?vs" using assms ne rsum by (simp add: Allocate_def Allocate_parties_eq)
    then show ?thesis by simp
  next
    case False
    obtain lo sub where "Allocate_loop 0 lo sub ?vs = Inr vs"
      using assms ne rsum False by (simp add: Allocate_def Allocate_parties_eq Let_def)
    then show ?thesis by (rule Allocate_loop_length)
  qed
  then have "length vs = length rs" "map currency vs = replicate (length rs) (currency m)"
    using c by simp_all
  then show ?thesis using map_currency_const by blast
qed

lemma Allocate_returns:
  assumes a: "is_int64 (amount m)" and ne: "rs \<noteq> []"
    and r: "\<forall>r \<in> set rs. 0 \<le> r \<and> is_int64 (amount m * r)"
    and S: "sum_list rs < 2 ^ 63"
  shows "\<exists>vs. Allocate m rs = Inr vs"
proof (cases "0 < sum_list rs")
  case True
  show ?thesis using Allocate_eq[OF a _ _ True S] r by blast
next
  case False
  have "0 \<le> sum_list rs" using r by (simp add: sum_list_nonneg)
  then have z: "sum_list rs = 0" using False by simp
  have "\<forall>r \<in> set rs. r = 0"
    using r z by (metis sum_list_nonneg_eq_0_iff)
  then show ?thesis using Allocate_zero[OF ne] by blast
qed

lemma unary_returns:
  assumes m: "m < length h"
  shows "Absolute_s h m
       = Inr (length h, h @ [\<lparr>amount = calc_absolute (amount (h ! m)), currency = currency (h ! m)\<rparr>])"
    and "Negative_s h m
       = Inr (length h, h @ [\<lparr>amount = calc_negative (amount (h ! m)), currency = currency (h ! m)\<rparr>])"
    and "Multiply_s h m mul
       = Inr (length h, h @ [\<lparr>amount = calc_multiply (amount (h ! m)) mul, currency = currency (h ! m)\<rparr>])"
    and "currency (h ! m) = Some c \<Longrightarrow> Round_s h m
       = Inr (length h, h @ [\<lparr>amount = calc_round (amount (h ! m)) (Fraction c), currency = Some c\<rparr>])"
  using m
  by (simp_all add: Absolute_s_def Negative_s_def Multiply_s_def Round_s_def alloc_def
      Absolute_def Negative_def Multiply_def Round_def)

lemma binary_returns:
  assumes m: "m < length h" "om < length h"
    and c: "currency (h ! m) = Some c" "currency (h ! om) = Some oc"
  shows "Code c = Code oc \<Longrightarrow> Add_s h m om
       = Inr ((Some (length h), None),
              h @ [\<lparr>amount = calc_add (amount (h ! m)) (amount (h ! om)), currency = Some c\<rparr>])"
    and "Code c = Code oc \<Longrightarrow> Subtract_s h m om
       = Inr ((Some (length h), None),
              h @ [\<lparr>amount = calc_subtract (amount (h ! m)) (amount (h ! om)), currency = Some c\<rparr>])"
    and "Code c \<noteq> Code oc \<Longrightarrow> Add_s h m om = Inr ((None, Some ErrCurrencyMismatch), h)"
    and "Code c \<noteq> Code oc \<Longrightarrow> Subtract_s h m om = Inr ((None, Some ErrCurrencyMismatch), h)"
  using m c
  by (simp_all add: Add_s_def Subtract_s_def Add_def Subtract_def assertSameCurrency_def
      SameCurrency_def equals_def alloc_def)

lemma Split_s_returns:
  assumes m: "m < length h" and a: "is_int64 (amount (h ! m))" and n: "0 < n" "n < 2 ^ 63"
  shows "\<exists>vs. Split (h ! m) n = Inr vs \<and> length vs = nat n
            \<and> (\<forall>x \<in> set vs. currency x = currency (h ! m))
            \<and> Split_s h m n = (Inr [length h..<length h + nat n], h @ vs)"
proof -
  obtain vs where vs: "Split (h ! m) n = Inr vs" using Split_eq[OF a n] by blast
  show ?thesis using vs Split_shape[OF vs] Split_s_sim[OF m vs] by blast
qed

lemma Allocate_s_returns:
  assumes m: "m < length h" and a: "is_int64 (amount (h ! m))" and ne: "rs \<noteq> []"
    and r: "\<forall>r \<in> set rs. 0 \<le> r \<and> is_int64 (amount (h ! m) * r)"
    and S: "sum_list rs < 2 ^ 63"
  shows "\<exists>vs. Allocate (h ! m) rs = Inr vs \<and> length vs = length rs
            \<and> (\<forall>x \<in> set vs. currency x = currency (h ! m))
            \<and> Allocate_s h m rs = (Inr [length h..<length h + length rs], h @ vs)"
proof -
  obtain vs where vs: "Allocate (h ! m) rs = Inr vs" using Allocate_returns[OF a ne r S] by blast
  show ?thesis using vs Allocate_shape[OF vs] Allocate_s_sim[OF m vs] by blast
qed

text \<open>
  C8. Every operation on a Money value returns new Money value(s) with the currency of the
  receiver and leaves the receiver unchanged. For a receiver in the store: \<^verbatim>\<open>Absolute\<close>,
  \<^verbatim>\<open>Negative\<close> and \<^verbatim>\<open>Multiply\<close> return a pointer to a newly allocated Money with the computed
  amount and the receiver's currency; \<^verbatim>\<open>Round\<close> does when the receiver has a currency;
  \<^verbatim>\<open>Add\<close> and \<^verbatim>\<open>Subtract\<close> do when both operands have a currency and the codes are equal, and
  return nil with the mismatch error, allocating nothing, when the codes differ; \<^verbatim>\<open>Split\<close>
  returns \<open>n\<close> newly allocated values, those of \<open>Split\<close> on the receiver's value, for an int64
  amount and \<open>0 < n < 2^63\<close>, and its error for \<open>n \<le> 0\<close>; \<^verbatim>\<open>Allocate\<close> returns one newly
  allocated value per ratio for a non-empty list of non-negative ratios whose sum is below
  \<open>2^63\<close> and whose products with the amount fit int64, and its errors for no ratio and for
  a negative ratio. In each case the store after the call is the store before it followed by
  the new values. And whatever a call returns, every Money value that existed before the call
  is unchanged, the receiver (and the argument) among them, and every pointer returned is newly
  allocated and carries the currency of the receiver; the pointers returned by \<^verbatim>\<open>Split\<close> and
  \<^verbatim>\<open>Allocate\<close> are pairwise distinct.
\<close>

theorem immutability:
  "m < length h \<longrightarrow>
     (Absolute_s h m
        = Inr (length h, h @ [\<lparr>amount = calc_absolute (amount (h ! m)), currency = currency (h ! m)\<rparr>])
      \<and> Negative_s h m
        = Inr (length h, h @ [\<lparr>amount = calc_negative (amount (h ! m)), currency = currency (h ! m)\<rparr>])
      \<and> Multiply_s h m mul
        = Inr (length h, h @ [\<lparr>amount = calc_multiply (amount (h ! m)) mul, currency = currency (h ! m)\<rparr>])
      \<and> (\<forall>c. currency (h ! m) = Some c \<longrightarrow>
           Round_s h m
             = Inr (length h, h @ [\<lparr>amount = calc_round (amount (h ! m)) (Fraction c), currency = Some c\<rparr>]))
      \<and> (\<forall>c oc. om < length h \<and> currency (h ! m) = Some c \<and> currency (h ! om) = Some oc
             \<and> Code c = Code oc \<longrightarrow>
           Add_s h m om
             = Inr ((Some (length h), None),
                    h @ [\<lparr>amount = calc_add (amount (h ! m)) (amount (h ! om)), currency = Some c\<rparr>])
           \<and> Subtract_s h m om
             = Inr ((Some (length h), None),
                    h @ [\<lparr>amount = calc_subtract (amount (h ! m)) (amount (h ! om)), currency = Some c\<rparr>]))
      \<and> (\<forall>c oc. om < length h \<and> currency (h ! m) = Some c \<and> currency (h ! om) = Some oc
             \<and> Code c \<noteq> Code oc \<longrightarrow>
           Add_s h m om = Inr ((None, Some ErrCurrencyMismatch), h)
           \<and> Subtract_s h m om = Inr ((None, Some ErrCurrencyMismatch), h))
      \<and> (is_int64 (amount (h ! m)) \<and> 0 < n \<and> n < 2 ^ 63 \<longrightarrow>
           (\<exists>vs. Split (h ! m) n = Inr vs \<and> length vs = nat n
              \<and> (\<forall>x \<in> set vs. currency x = currency (h ! m))
              \<and> Split_s h m n = (Inr [length h..<length h + nat n], h @ vs)))
      \<and> (n \<le> 0 \<longrightarrow> Split_s h m n = (Inl SplitNotPositive, h))
      \<and> (is_int64 (amount (h ! m)) \<and> rs \<noteq> []
             \<and> (\<forall>r \<in> set rs. 0 \<le> r \<and> is_int64 (amount (h ! m) * r)) \<and> sum_list rs < 2 ^ 63 \<longrightarrow>
           (\<exists>vs. Allocate (h ! m) rs = Inr vs \<and> length vs = length rs
              \<and> (\<forall>x \<in> set vs. currency x = currency (h ! m))
              \<and> Allocate_s h m rs = (Inr [length h..<length h + length rs], h @ vs)))
      \<and> (rs = [] \<longrightarrow> Allocate_s h m rs = (Inl NoRatios, h))
      \<and> ((\<exists>r \<in> set rs. r < 0) \<longrightarrow> Allocate_s h m rs = (Inl NegativeRatio, h)))
     \<and> ((\<forall>p h'. Absolute_s h m = Inr (p, h') \<longrightarrow>
          kept h h' \<and> new_in h h' p \<and> currency (h' ! p) = currency (h ! m))
       \<and> (\<forall>p h'. Negative_s h m = Inr (p, h') \<longrightarrow>
          kept h h' \<and> new_in h h' p \<and> currency (h' ! p) = currency (h ! m))
       \<and> (\<forall>p h'. Multiply_s h m mul = Inr (p, h') \<longrightarrow>
          kept h h' \<and> new_in h h' p \<and> currency (h' ! p) = currency (h ! m))
       \<and> (\<forall>p h'. Round_s h m = Inr (p, h') \<longrightarrow>
          kept h h' \<and> new_in h h' p \<and> currency (h' ! p) = currency (h ! m))
       \<and> (\<forall>r err h'. Add_s h m om = Inr ((r, err), h') \<longrightarrow>
          kept h h' \<and> (\<forall>p. r = Some p \<longrightarrow>
            new_in h h' p \<and> currency (h' ! p) = currency (h ! m)))
       \<and> (\<forall>r err h'. Subtract_s h m om = Inr ((r, err), h') \<longrightarrow>
          kept h h' \<and> (\<forall>p. r = Some p \<longrightarrow>
            new_in h h' p \<and> currency (h' ! p) = currency (h ! m)))
       \<and> (\<forall>res h'. Split_s h m n = (res, h') \<longrightarrow>
          kept h h' \<and> (\<forall>ms. res = Inr ms \<longrightarrow>
            distinct ms \<and> (\<forall>p \<in> set ms. new_in h h' p \<and> currency (h' ! p) = currency (h ! m))))
       \<and> (\<forall>res h'. Allocate_s h m rs = (res, h') \<longrightarrow>
          kept h h' \<and> (\<forall>ms. res = Inr ms \<longrightarrow>
            distinct ms \<and> (\<forall>p \<in> set ms. new_in h h' p \<and> currency (h' ! p) = currency (h ! m)))))"
proof (rule impI, rule conjI)
  assume m: "m < length h"
  show "(\<forall>p h'. Absolute_s h m = Inr (p, h') \<longrightarrow>
          kept h h' \<and> new_in h h' p \<and> currency (h' ! p) = currency (h ! m))
       \<and> (\<forall>p h'. Negative_s h m = Inr (p, h') \<longrightarrow>
          kept h h' \<and> new_in h h' p \<and> currency (h' ! p) = currency (h ! m))
       \<and> (\<forall>p h'. Multiply_s h m mul = Inr (p, h') \<longrightarrow>
          kept h h' \<and> new_in h h' p \<and> currency (h' ! p) = currency (h ! m))
       \<and> (\<forall>p h'. Round_s h m = Inr (p, h') \<longrightarrow>
          kept h h' \<and> new_in h h' p \<and> currency (h' ! p) = currency (h ! m))
       \<and> (\<forall>r err h'. Add_s h m om = Inr ((r, err), h') \<longrightarrow>
          kept h h' \<and> (\<forall>p. r = Some p \<longrightarrow>
            new_in h h' p \<and> currency (h' ! p) = currency (h ! m)))
       \<and> (\<forall>r err h'. Subtract_s h m om = Inr ((r, err), h') \<longrightarrow>
          kept h h' \<and> (\<forall>p. r = Some p \<longrightarrow>
            new_in h h' p \<and> currency (h' ! p) = currency (h ! m)))
       \<and> (\<forall>res h'. Split_s h m n = (res, h') \<longrightarrow>
          kept h h' \<and> (\<forall>ms. res = Inr ms \<longrightarrow>
            distinct ms \<and> (\<forall>p \<in> set ms. new_in h h' p \<and> currency (h' ! p) = currency (h ! m))))
       \<and> (\<forall>res h'. Allocate_s h m rs = (res, h') \<longrightarrow>
          kept h h' \<and> (\<forall>ms. res = Inr ms \<longrightarrow>
            distinct ms \<and> (\<forall>p \<in> set ms. new_in h h' p \<and> currency (h' ! p) = currency (h ! m))))"
    by (rule operations_frame[THEN mp, OF m])
  have neg: "Allocate_s h m rs = (Inl NegativeRatio, h)" if "\<exists>r \<in> set rs. r < 0"
  proof -
    have "Allocate_sum rs acc = Inl NegativeRatio" for acc
      using that by (induction rs arbitrary: acc) auto
    moreover have "rs \<noteq> []" using that by auto
    ultimately show ?thesis by (simp add: Allocate_s_def)
  qed
  show "Absolute_s h m
        = Inr (length h, h @ [\<lparr>amount = calc_absolute (amount (h ! m)), currency = currency (h ! m)\<rparr>])
      \<and> Negative_s h m
        = Inr (length h, h @ [\<lparr>amount = calc_negative (amount (h ! m)), currency = currency (h ! m)\<rparr>])
      \<and> Multiply_s h m mul
        = Inr (length h, h @ [\<lparr>amount = calc_multiply (amount (h ! m)) mul, currency = currency (h ! m)\<rparr>])
      \<and> (\<forall>c. currency (h ! m) = Some c \<longrightarrow>
           Round_s h m
             = Inr (length h, h @ [\<lparr>amount = calc_round (amount (h ! m)) (Fraction c), currency = Some c\<rparr>]))
      \<and> (\<forall>c oc. om < length h \<and> currency (h ! m) = Some c \<and> currency (h ! om) = Some oc
             \<and> Code c = Code oc \<longrightarrow>
           Add_s h m om
             = Inr ((Some (length h), None),
                    h @ [\<lparr>amount = calc_add (amount (h ! m)) (amount (h ! om)), currency = Some c\<rparr>])
           \<and> Subtract_s h m om
             = Inr ((Some (length h), None),
                    h @ [\<lparr>amount = calc_subtract (amount (h ! m)) (amount (h ! om)), currency = Some c\<rparr>]))
      \<and> (\<forall>c oc. om < length h \<and> currency (h ! m) = Some c \<and> currency (h ! om) = Some oc
             \<and> Code c \<noteq> Code oc \<longrightarrow>
           Add_s h m om = Inr ((None, Some ErrCurrencyMismatch), h)
           \<and> Subtract_s h m om = Inr ((None, Some ErrCurrencyMismatch), h))
      \<and> (is_int64 (amount (h ! m)) \<and> 0 < n \<and> n < 2 ^ 63 \<longrightarrow>
           (\<exists>vs. Split (h ! m) n = Inr vs \<and> length vs = nat n
              \<and> (\<forall>x \<in> set vs. currency x = currency (h ! m))
              \<and> Split_s h m n = (Inr [length h..<length h + nat n], h @ vs)))
      \<and> (n \<le> 0 \<longrightarrow> Split_s h m n = (Inl SplitNotPositive, h))
      \<and> (is_int64 (amount (h ! m)) \<and> rs \<noteq> []
             \<and> (\<forall>r \<in> set rs. 0 \<le> r \<and> is_int64 (amount (h ! m) * r)) \<and> sum_list rs < 2 ^ 63 \<longrightarrow>
           (\<exists>vs. Allocate (h ! m) rs = Inr vs \<and> length vs = length rs
              \<and> (\<forall>x \<in> set vs. currency x = currency (h ! m))
              \<and> Allocate_s h m rs = (Inr [length h..<length h + length rs], h @ vs)))
      \<and> (rs = [] \<longrightarrow> Allocate_s h m rs = (Inl NoRatios, h))
      \<and> ((\<exists>r \<in> set rs. r < 0) \<longrightarrow> Allocate_s h m rs = (Inl NegativeRatio, h))"
  proof (intro conjI allI impI)
    show "Absolute_s h m
        = Inr (length h, h @ [\<lparr>amount = calc_absolute (amount (h ! m)), currency = currency (h ! m)\<rparr>])"
      by (rule unary_returns(1)[OF m])
    show "Negative_s h m
        = Inr (length h, h @ [\<lparr>amount = calc_negative (amount (h ! m)), currency = currency (h ! m)\<rparr>])"
      by (rule unary_returns(2)[OF m])
    show "Multiply_s h m mul
        = Inr (length h, h @ [\<lparr>amount = calc_multiply (amount (h ! m)) mul, currency = currency (h ! m)\<rparr>])"
      by (rule unary_returns(3)[OF m])
    show "Round_s h m
             = Inr (length h, h @ [\<lparr>amount = calc_round (amount (h ! m)) (Fraction c), currency = Some c\<rparr>])"
      if "currency (h ! m) = Some c" for c
      by (rule unary_returns(4)[OF m that])
    show "Add_s h m om
             = Inr ((Some (length h), None),
                    h @ [\<lparr>amount = calc_add (amount (h ! m)) (amount (h ! om)), currency = Some c\<rparr>])"
      if "om < length h \<and> currency (h ! m) = Some c \<and> currency (h ! om) = Some oc \<and> Code c = Code oc"
      for c oc
      using that binary_returns(1)[OF m, of om c oc] by simp
    show "Subtract_s h m om
             = Inr ((Some (length h), None),
                    h @ [\<lparr>amount = calc_subtract (amount (h ! m)) (amount (h ! om)), currency = Some c\<rparr>])"
      if "om < length h \<and> currency (h ! m) = Some c \<and> currency (h ! om) = Some oc \<and> Code c = Code oc"
      for c oc
      using that binary_returns(2)[OF m, of om c oc] by simp
    show "Add_s h m om = Inr ((None, Some ErrCurrencyMismatch), h)"
      if "om < length h \<and> currency (h ! m) = Some c \<and> currency (h ! om) = Some oc \<and> Code c \<noteq> Code oc"
      for c oc
      using that binary_returns(3)[OF m, of om c oc] by simp
    show "Subtract_s h m om = Inr ((None, Some ErrCurrencyMismatch), h)"
      if "om < length h \<and> currency (h ! m) = Some c \<and> currency (h ! om) = Some oc \<and> Code c \<noteq> Code oc"
      for c oc
      using that binary_returns(4)[OF m, of om c oc] by simp
    show "\<exists>vs. Split (h ! m) n = Inr vs \<and> length vs = nat n
              \<and> (\<forall>x \<in> set vs. currency x = currency (h ! m))
              \<and> Split_s h m n = (Inr [length h..<length h + nat n], h @ vs)"
      if "is_int64 (amount (h ! m)) \<and> 0 < n \<and> n < 2 ^ 63"
      using that by (intro Split_s_returns[OF m]) simp_all
    show "Split_s h m n = (Inl SplitNotPositive, h)" if "n \<le> 0"
      using that by (simp add: Split_s_def)
    show "\<exists>vs. Allocate (h ! m) rs = Inr vs \<and> length vs = length rs
              \<and> (\<forall>x \<in> set vs. currency x = currency (h ! m))
              \<and> Allocate_s h m rs = (Inr [length h..<length h + length rs], h @ vs)"
      if "is_int64 (amount (h ! m)) \<and> rs \<noteq> []
             \<and> (\<forall>r \<in> set rs. 0 \<le> r \<and> is_int64 (amount (h ! m) * r)) \<and> sum_list rs < 2 ^ 63"
      using that by (intro Allocate_s_returns[OF m]) simp_all
    show "Allocate_s h m rs = (Inl NoRatios, h)" if "rs = []"
      using that by (simp add: Allocate_s_def)
    show "Allocate_s h m rs = (Inl NegativeRatio, h)" if "\<exists>r \<in> set rs. r < 0"
      by (rule neg[OF that])
  qed
qed

text \<open>
  The theorem in a store holding -75 GBP, 100 GBP and 5 EUR: each of the eight operations
  returns what it computes in the cells 3 and following, the three values are kept, and the
  calls that fail (pounds with euros, a split in 0, no ratio, a negative ratio) leave the store
  as it was.
\<close>

theorem immutability_witness:
  "(1::nat) < length [\<lparr>amount = - 75, currency = Some GBP\<rparr>, \<lparr>amount = 100, currency = Some GBP\<rparr>,
                      \<lparr>amount = 5, currency = Some EUR\<rparr>]
   \<and> Absolute_s [\<lparr>amount = - 75, currency = Some GBP\<rparr>, \<lparr>amount = 100, currency = Some GBP\<rparr>,
                  \<lparr>amount = 5, currency = Some EUR\<rparr>] 0
       = Inr (3, [\<lparr>amount = - 75, currency = Some GBP\<rparr>, \<lparr>amount = 100, currency = Some GBP\<rparr>,
                  \<lparr>amount = 5, currency = Some EUR\<rparr>, \<lparr>amount = 75, currency = Some GBP\<rparr>])
   \<and> Negative_s [\<lparr>amount = - 75, currency = Some GBP\<rparr>, \<lparr>amount = 100, currency = Some GBP\<rparr>,
                  \<lparr>amount = 5, currency = Some EUR\<rparr>] 1
       = Inr (3, [\<lparr>amount = - 75, currency = Some GBP\<rparr>, \<lparr>amount = 100, currency = Some GBP\<rparr>,
                  \<lparr>amount = 5, currency = Some EUR\<rparr>, \<lparr>amount = - 100, currency = Some GBP\<rparr>])
   \<and> Multiply_s [\<lparr>amount = - 75, currency = Some GBP\<rparr>, \<lparr>amount = 100, currency = Some GBP\<rparr>,
                  \<lparr>amount = 5, currency = Some EUR\<rparr>] 1 2
       = Inr (3, [\<lparr>amount = - 75, currency = Some GBP\<rparr>, \<lparr>amount = 100, currency = Some GBP\<rparr>,
                  \<lparr>amount = 5, currency = Some EUR\<rparr>, \<lparr>amount = 200, currency = Some GBP\<rparr>])
   \<and> Round_s [\<lparr>amount = - 75, currency = Some GBP\<rparr>, \<lparr>amount = 100, currency = Some GBP\<rparr>,
               \<lparr>amount = 5, currency = Some EUR\<rparr>] 0
       = Inr (3, [\<lparr>amount = - 75, currency = Some GBP\<rparr>, \<lparr>amount = 100, currency = Some GBP\<rparr>,
                  \<lparr>amount = 5, currency = Some EUR\<rparr>, \<lparr>amount = - 100, currency = Some GBP\<rparr>])
   \<and> Add_s [\<lparr>amount = - 75, currency = Some GBP\<rparr>, \<lparr>amount = 100, currency = Some GBP\<rparr>,
             \<lparr>amount = 5, currency = Some EUR\<rparr>] 1 0
       = Inr ((Some 3, None),
              [\<lparr>amount = - 75, currency = Some GBP\<rparr>, \<lparr>amount = 100, currency = Some GBP\<rparr>,
               \<lparr>amount = 5, currency = Some EUR\<rparr>, \<lparr>amount = 25, currency = Some GBP\<rparr>])
   \<and> Subtract_s [\<lparr>amount = - 75, currency = Some GBP\<rparr>, \<lparr>amount = 100, currency = Some GBP\<rparr>,
                  \<lparr>amount = 5, currency = Some EUR\<rparr>] 1 0
       = Inr ((Some 3, None),
              [\<lparr>amount = - 75, currency = Some GBP\<rparr>, \<lparr>amount = 100, currency = Some GBP\<rparr>,
               \<lparr>amount = 5, currency = Some EUR\<rparr>, \<lparr>amount = 175, currency = Some GBP\<rparr>])
   \<and> Subtract_s [\<lparr>amount = - 75, currency = Some GBP\<rparr>, \<lparr>amount = 100, currency = Some GBP\<rparr>,
                  \<lparr>amount = 5, currency = Some EUR\<rparr>] 1 2
       = Inr ((None, Some ErrCurrencyMismatch),
              [\<lparr>amount = - 75, currency = Some GBP\<rparr>, \<lparr>amount = 100, currency = Some GBP\<rparr>,
               \<lparr>amount = 5, currency = Some EUR\<rparr>])
   \<and> Split_s [\<lparr>amount = - 75, currency = Some GBP\<rparr>, \<lparr>amount = 100, currency = Some GBP\<rparr>,
               \<lparr>amount = 5, currency = Some EUR\<rparr>] 1 3
       = (Inr [3, 4, 5],
          [\<lparr>amount = - 75, currency = Some GBP\<rparr>, \<lparr>amount = 100, currency = Some GBP\<rparr>,
           \<lparr>amount = 5, currency = Some EUR\<rparr>, \<lparr>amount = 34, currency = Some GBP\<rparr>,
           \<lparr>amount = 33, currency = Some GBP\<rparr>, \<lparr>amount = 33, currency = Some GBP\<rparr>])
   \<and> Allocate_s [\<lparr>amount = - 75, currency = Some GBP\<rparr>, \<lparr>amount = 100, currency = Some GBP\<rparr>,
                  \<lparr>amount = 5, currency = Some EUR\<rparr>] 1 [1, 1, 1]
       = (Inr [3, 4, 5],
          [\<lparr>amount = - 75, currency = Some GBP\<rparr>, \<lparr>amount = 100, currency = Some GBP\<rparr>,
           \<lparr>amount = 5, currency = Some EUR\<rparr>, \<lparr>amount = 34, currency = Some GBP\<rparr>,
           \<lparr>amount = 33, currency = Some GBP\<rparr>, \<lparr>amount = 33, currency = Some GBP\<rparr>])
   \<and> Add_s [\<lparr>amount = - 75, currency = Some GBP\<rparr>, \<lparr>amount = 100, currency = Some GBP\<rparr>,
               \<lparr>amount = 5, currency = Some EUR\<rparr>] 1 2
       = Inr ((None, Some ErrCurrencyMismatch),
              [\<lparr>amount = - 75, currency = Some GBP\<rparr>, \<lparr>amount = 100, currency = Some GBP\<rparr>,
               \<lparr>amount = 5, currency = Some EUR\<rparr>])
   \<and> Split_s [\<lparr>amount = - 75, currency = Some GBP\<rparr>, \<lparr>amount = 100, currency = Some GBP\<rparr>,
               \<lparr>amount = 5, currency = Some EUR\<rparr>] 1 0
       = (Inl SplitNotPositive,
          [\<lparr>amount = - 75, currency = Some GBP\<rparr>, \<lparr>amount = 100, currency = Some GBP\<rparr>,
               \<lparr>amount = 5, currency = Some EUR\<rparr>])
   \<and> Allocate_s [\<lparr>amount = - 75, currency = Some GBP\<rparr>, \<lparr>amount = 100, currency = Some GBP\<rparr>,
               \<lparr>amount = 5, currency = Some EUR\<rparr>] 1 []
       = (Inl NoRatios,
          [\<lparr>amount = - 75, currency = Some GBP\<rparr>, \<lparr>amount = 100, currency = Some GBP\<rparr>,
               \<lparr>amount = 5, currency = Some EUR\<rparr>])
   \<and> Allocate_s [\<lparr>amount = - 75, currency = Some GBP\<rparr>, \<lparr>amount = 100, currency = Some GBP\<rparr>,
               \<lparr>amount = 5, currency = Some EUR\<rparr>] 1 [1, - 1]
       = (Inl NegativeRatio,
          [\<lparr>amount = - 75, currency = Some GBP\<rparr>, \<lparr>amount = 100, currency = Some GBP\<rparr>,
               \<lparr>amount = 5, currency = Some EUR\<rparr>])
   \<and> kept [\<lparr>amount = - 75, currency = Some GBP\<rparr>, \<lparr>amount = 100, currency = Some GBP\<rparr>,
            \<lparr>amount = 5, currency = Some EUR\<rparr>]
          [\<lparr>amount = - 75, currency = Some GBP\<rparr>, \<lparr>amount = 100, currency = Some GBP\<rparr>,
           \<lparr>amount = 5, currency = Some EUR\<rparr>, \<lparr>amount = 34, currency = Some GBP\<rparr>,
           \<lparr>amount = 33, currency = Some GBP\<rparr>, \<lparr>amount = 33, currency = Some GBP\<rparr>]"
proof -
  let ?a = "\<lparr>amount = - 75, currency = Some GBP\<rparr>"
  let ?b = "\<lparr>amount = 100, currency = Some GBP\<rparr>"
  let ?c = "\<lparr>amount = 5, currency = Some EUR\<rparr>"
  let ?h = "[?a, ?b, ?c]"
  let ?vs = "[\<lparr>amount = 34, currency = Some GBP\<rparr>, \<lparr>amount = 33, currency = Some GBP\<rparr>,
              \<lparr>amount = 33, currency = Some GBP\<rparr>]"
  have m0: "(0::nat) < length ?h" and m1: "(1::nat) < length ?h" by simp_all
  note A = immutability[where m = 0 and h = ?h, THEN mp, OF m0, THEN conjunct1]
  note B = immutability[where m = 1 and h = ?h and mul = 2 and om = 0 and n = 3 and rs = "[1, 1, 1]",
      THEN mp, OF m1]
  note B1 = B[THEN conjunct1]
  note C = immutability[where m = 1 and h = ?h and om = 2, THEN mp, OF m1, THEN conjunct1]
  have v: "calc_absolute (- 75) = 75" "calc_negative 100 = - 100" "calc_multiply 100 2 = 200"
    "calc_round (- 75) 2 = - 100" "calc_add 100 (- 75) = 25" "calc_subtract 100 (- 75) = 175"
    by code_simp+
  have r1: "Absolute_s ?h 0 = Inr (3, ?h @ [\<lparr>amount = 75, currency = Some GBP\<rparr>])"
    using A[THEN conjunct1] v by simp
  have r2: "Negative_s ?h 1 = Inr (3, ?h @ [\<lparr>amount = - 100, currency = Some GBP\<rparr>])"
    using B1[THEN conjunct2, THEN conjunct1] v by simp
  have r3: "Multiply_s ?h 1 2 = Inr (3, ?h @ [\<lparr>amount = 200, currency = Some GBP\<rparr>])"
    using B1[THEN conjunct2, THEN conjunct2, THEN conjunct1] v by simp
  note A4 = A[THEN conjunct2, THEN conjunct2, THEN conjunct2]
  note B4 = B1[THEN conjunct2, THEN conjunct2, THEN conjunct2]
  note C4 = C[THEN conjunct2, THEN conjunct2, THEN conjunct2]
  have r4: "Round_s ?h 0 = Inr (3, ?h @ [\<lparr>amount = - 100, currency = Some GBP\<rparr>])"
    using A4[THEN conjunct1, rule_format, of GBP] v by (simp add: GBP_def)
  have same: "(0::nat) < length ?h \<and> currency (?h ! 1) = Some GBP \<and> currency (?h ! 0) = Some GBP
      \<and> Code GBP = Code GBP" by simp
  have diff: "(2::nat) < length ?h \<and> currency (?h ! 1) = Some GBP \<and> currency (?h ! 2) = Some EUR
      \<and> Code GBP \<noteq> Code EUR" by (simp add: GBP_def EUR_def)
  note AS = B4[THEN conjunct2, THEN conjunct1, rule_format, OF same]
  have r5: "Add_s ?h 1 0 = Inr ((Some 3, None), ?h @ [\<lparr>amount = 25, currency = Some GBP\<rparr>])"
    using AS[THEN conjunct1] v by simp
  have r6: "Subtract_s ?h 1 0 = Inr ((Some 3, None), ?h @ [\<lparr>amount = 175, currency = Some GBP\<rparr>])"
    using AS[THEN conjunct2] v by simp
  note CD = C4[THEN conjunct2, THEN conjunct2, THEN conjunct1, rule_format, OF diff]
  have r7: "Subtract_s ?h 1 2 = Inr ((None, Some ErrCurrencyMismatch), ?h)"
    using CD by simp
  have r7a: "Add_s ?h 1 2 = Inr ((None, Some ErrCurrencyMismatch), ?h)"
    using CD by simp
  note D = immutability[where m = 1 and h = ?h and n = 0 and rs = "[]", THEN mp, OF m1, THEN conjunct1]
  note D7 = D[THEN conjunct2, THEN conjunct2, THEN conjunct2, THEN conjunct2, THEN conjunct2,
      THEN conjunct2, THEN conjunct2]
  have e1: "Split_s ?h 1 0 = (Inl SplitNotPositive, ?h)"
    using D7[THEN conjunct1] by simp
  have e2: "Allocate_s ?h 1 [] = (Inl NoRatios, ?h)"
    using D7[THEN conjunct2, THEN conjunct2, THEN conjunct1] by simp
  note E = immutability[where m = 1 and h = ?h and rs = "[1, - 1]", THEN mp, OF m1, THEN conjunct1]
  have e3: "Allocate_s ?h 1 [1, - 1] = (Inl NegativeRatio, ?h)"
    using E[THEN conjunct2, THEN conjunct2, THEN conjunct2, THEN conjunct2, THEN conjunct2,
      THEN conjunct2, THEN conjunct2, THEN conjunct2, THEN conjunct2, THEN conjunct2] by simp
  note B7 = B4[THEN conjunct2, THEN conjunct2, THEN conjunct2]
  have sh: "is_int64 (amount (?h ! 1)) \<and> (0::int) < 3 \<and> (3::int) < 2 ^ 63"
    by (simp add: is_int64_def)
  have sv: "Split (?h ! 1) 3 = Inr ?vs" by code_simp
  have r8: "Split_s ?h 1 3 = (Inr [3, 4, 5], ?h @ ?vs)"
  proof -
    obtain vs where "Split (?h ! 1) 3 = Inr vs"
      "Split_s ?h 1 3 = (Inr [length ?h..<length ?h + nat 3], ?h @ vs)"
      using B7[THEN conjunct1, THEN mp, OF sh] by blast
    moreover have "[length ?h..<length ?h + nat 3] = [3, 4, 5]" by code_simp
    ultimately show ?thesis using sv by simp
  qed
  have ah: "is_int64 (amount (?h ! 1)) \<and> [1, 1, 1] \<noteq> ([]::int list)
      \<and> (\<forall>r \<in> set [1, 1, 1]. 0 \<le> r \<and> is_int64 (amount (?h ! 1) * r))
      \<and> sum_list [1, 1, 1] < (2::int) ^ 63"
    by (simp add: is_int64_def)
  have av: "Allocate (?h ! 1) [1, 1, 1] = Inr ?vs" by code_simp
  have r9: "Allocate_s ?h 1 [1, 1, 1] = (Inr [3, 4, 5], ?h @ ?vs)"
  proof -
    obtain vs where "Allocate (?h ! 1) [1, 1, 1] = Inr vs"
      "Allocate_s ?h 1 [1, 1, 1] = (Inr [length ?h..<length ?h + length [1, 1, 1 :: int]], ?h @ vs)"
      using B7[THEN conjunct2, THEN conjunct2, THEN conjunct1, THEN mp, OF ah] by blast
    moreover have "[length ?h..<length ?h + length [1, 1, 1 :: int]] = [3, 4, 5]" by code_simp
    ultimately show ?thesis using av by simp
  qed
  note F = B[THEN conjunct2, THEN conjunct2, THEN conjunct2, THEN conjunct2, THEN conjunct2,
      THEN conjunct2, THEN conjunct2, THEN conjunct1, rule_format, OF r8, THEN conjunct1]
  show ?thesis using m1 r1 r2 r3 r4 r5 r6 r7 r7a e1 e2 e3 r8 r9 F by simp
qed

section \<open>The parser\<close>

lemma strings_Index_single_None: "strings_Index s [ch] = None \<longleftrightarrow> ch \<notin> set s"
  by (induction s) auto

lemma strings_Index_single:
  "strings_Index s [ch] = Some i \<longleftrightarrow> i < length s \<and> s ! i = ch \<and> (\<forall>j<i. s ! j \<noteq> ch)"
proof (induction s arbitrary: i)
  case Nil
  then show ?case by simp
next
  case (Cons x s)
  show ?case
  proof (cases "x = ch")
    case True
    then show ?thesis by (cases i) auto
  next
    case False
    show ?thesis
    proof (cases i)
      case 0
      then show ?thesis using False by auto
    next
      case (Suc k)
      have "(\<forall>j<Suc k. (x # s) ! j \<noteq> ch) \<longleftrightarrow> (\<forall>j<k. s ! j \<noteq> ch)"
        using False by (auto simp: less_Suc_eq_0_disj)
      then show ?thesis using False Suc Cons.IH[of k] by auto
    qed
  qed
qed

lemma wrap64_mod: "wrap64 x mod 2 ^ 64 = x mod 2 ^ 64"
proof -
  have "wrap64 x mod 2 ^ 64 = ((x + 2 ^ 63) mod 2 ^ 64 - 2 ^ 63) mod 2 ^ 64"
    by (simp add: wrap64_def)
  also have "\<dots> = (x + 2 ^ 63 - 2 ^ 63) mod 2 ^ 64"
    by (rule mod_diff_left_eq)
  finally show ?thesis by simp
qed

lemma wrap64_cong: "x mod 2 ^ 64 = y mod 2 ^ 64 \<Longrightarrow> wrap64 x = wrap64 y"
  unfolding wrap64_def by (metis mod_add_left_eq)

lemma wrap64_mult_left: "wrap64 (wrap64 x * y) = wrap64 (x * y)"
  by (rule wrap64_cong) (metis mod_mult_left_eq wrap64_mod)

lemma NewFromString_loop_eq:
  "d \<le> f \<Longrightarrow> NewFromString_loop d f parsed =
     (if d = f then parsed else wrap64 (parsed * 10 ^ nat (f - d)))"
proof (induction "nat (f - d)" arbitrary: d parsed)
  case 0
  then show ?case by (simp add: NewFromString_loop.simps)
next
  case (Suc k)
  then have lt: "d < f" and k: "k = nat (f - (d + 1))" by auto
  have n: "nat (f - d) = Suc (nat (f - (d + 1)))" using lt by simp
  have "NewFromString_loop d f parsed = NewFromString_loop (d + 1) f (wrap64 (parsed * 10))"
    using lt by (subst NewFromString_loop.simps) simp
  also have "\<dots> = (if d + 1 = f then wrap64 (parsed * 10)
       else wrap64 (wrap64 (parsed * 10) * 10 ^ nat (f - (d + 1))))"
    using lt k by (intro Suc.hyps(1)) auto
  also have "\<dots> = wrap64 (parsed * 10 ^ nat (f - d))"
    unfolding n by (auto simp: wrap64_mult_left algebra_simps)
  finally show ?case using lt by simp
qed

lemma ParseInt_range: "ParseInt s = Some v \<Longrightarrow> is_int64 v"
proof -
  have nn: "0 \<le> n \<Longrightarrow> parse_digits t n = Some u \<Longrightarrow> 0 \<le> u" for t n u
  proof (induction t arbitrary: n)
    case Nil
    then show ?case by simp
  next
    case (Cons a t)
    then obtain d where d: "digit_of a = Some d" and r: "parse_digits t (n * 10 + d) = Some u"
      by (auto split: option.splits)
    have "0 \<le> d" using d by (auto simp: digit_of_def split: if_splits)
    then have "0 \<le> n * 10 + d" using Cons.prems(1) by simp
    then show ?case using r by (rule Cons.IH)
  qed
  assume "ParseInt s = Some v"
  then obtain un where un: "parse_digits (if hd s = CHR ''+'' \<or> hd s = CHR ''-'' then tl s else s) 0 = Some un"
    and v: "v = (if hd s = CHR ''-'' then - un else un)"
    and r: "\<not> (hd s \<noteq> CHR ''-'' \<and> 2 ^ 63 \<le> un)" "\<not> (hd s = CHR ''-'' \<and> 2 ^ 63 < un)"
    by (auto simp: ParseInt_def ParseUint_def Let_def split: if_splits option.splits)
  have "0 \<le> un" using nn[OF _ un] by simp
  then show ?thesis using v r by (auto simp: is_int64_def)
qed

lemma toParse_eq:
  assumes sep: "length (Decimal c) = 1" and f: "0 \<le> Fraction c"
  shows "NewFromString_toParse c amt =
    (case strings_Index amt (Decimal c) of
       None \<Rightarrow> Inr (amt, 0)
     | Some i \<Rightarrow> Inr (take i amt @ take (nat (Fraction c)) (drop (i + 1) amt),
                  int (length (take (nat (Fraction c)) (drop (i + 1) amt)))))"
proof (cases "strings_Index amt (Decimal c)")
  case None
  then show ?thesis by (simp add: NewFromString_toParse_def)
next
  case (Some i)
  obtain ch where ch: "Decimal c = [ch]" using sep by (cases "Decimal c") auto
  have i: "i < length amt" using Some unfolding ch strings_Index_single by simp
  show ?thesis
  proof (cases "int (length amt) - int i - 1 > Fraction c")
    case True
    have "nat (int i + 1) = Suc i" "\<not> length amt - Suc i \<le> nat (Fraction c)"
      "length amt - Suc i \<ge> nat (Fraction c)"
      using True f i by auto
    then show ?thesis using Some i f True
      by (simp add: NewFromString_toParse_def slice_def Let_def min_def)
  next
    case False
    then have "take (nat (Fraction c)) (drop (i + 1) amt) = drop (i + 1) amt" by simp
    moreover have "take (nat (int (length amt) - int i - 1)) (drop (Suc i) amt) = drop (i + 1) amt"
      by simp
    ultimately show ?thesis using Some i f False
      by (simp add: NewFromString_toParse_def slice_def Let_def nat_diff_distrib nat_add_distrib)
  qed
qed

lemma NewFromString_eq:
  fixes amt :: string
  assumes g: "GetCurrency currencyCode = Some c"
    and sep: "length (Decimal c) = 1" and f: "0 \<le> Fraction c"
  defines "fd \<equiv> (case strings_Index amt (Decimal c) of None \<Rightarrow> []
                   | Some i \<Rightarrow> take (nat (Fraction c)) (drop (i + 1) amt))"
  defines "ip \<equiv> (case strings_Index amt (Decimal c) of None \<Rightarrow> amt | Some i \<Rightarrow> take i amt)"
  shows "NewFromString GetCurrency amt currencyCode =
     (case ParseInt (ip @ fd) of
        None \<Rightarrow> Inl (InvalidAmount amt)
      | Some v \<Rightarrow> Inr \<lparr>amount = wrap64 (v * 10 ^ (nat (Fraction c) - length fd)),
                       currency = Some c\<rparr>)"
proof -
  have tp: "NewFromString_toParse c amt = Inr (ip @ fd, int (length fd))"
    unfolding toParse_eq[OF sep f] ip_def fd_def by (simp split: option.splits)
  have l: "int (length fd) \<le> Fraction c" using f unfolding fd_def by (auto split: option.splits)
  have lp: "NewFromString_loop (int (length fd)) (Fraction c) v =
      wrap64 (v * 10 ^ (nat (Fraction c) - length fd))" if "ParseInt (ip @ fd) = Some v" for v
  proof -
    have i: "wrap64 v = v" using ParseInt_range[OF that] by (rule wrap64_id)
    have n: "nat (Fraction c - int (length fd)) = nat (Fraction c) - length fd" by simp
    show ?thesis unfolding NewFromString_loop_eq[OF l] n using i l by auto
  qed
  show ?thesis using g tp lp by (simp add: NewFromString_def split: option.splits)
qed

text \<open>
  C4, as amended. For a currency whose decimal separator is a single byte and whose fraction
  is not negative, \<^verbatim>\<open>NewFromString\<close> takes the bytes after the first separator, cut to at most
  \<open>fraction\<close> of them, appends them to the integer part, reads the concatenation with
  \<^verbatim>\<open>strconv.ParseInt\<close> (an optional sign \<^verbatim>\<open>+\<close> or \<^verbatim>\<open>-\<close>, decimal digits, a value within
  int64) and multiplies the result by \<open>10^(fraction - suppliedDigits)\<close> in int64 arithmetic:
  the amount is the product of the specification whenever that product fits int64. Without
  a separator the whole string is the integer part, with no supplied digits. It fails with
  the invalid-amount error exactly when \<^verbatim>\<open>ParseInt\<close> rejects the concatenation.
\<close>

theorem parser_algorithm:
  "GetCurrency currencyCode = Some c \<and> length (Decimal c) = 1 \<and> 0 \<le> Fraction c \<longrightarrow>
     (strings_Index amt (Decimal c) = None \<longrightarrow>
        NewFromString GetCurrency amt currencyCode =
          (case ParseInt amt of
             None \<Rightarrow> Inl (InvalidAmount amt)
           | Some v \<Rightarrow> Inr \<lparr>amount = wrap64 (v * 10 ^ nat (Fraction c)), currency = Some c\<rparr>))
     \<and> (\<forall>i. strings_Index amt (Decimal c) = Some i \<longrightarrow>
        NewFromString GetCurrency amt currencyCode =
          (case ParseInt (take i amt @ take (nat (Fraction c)) (drop (i + 1) amt)) of
             None \<Rightarrow> Inl (InvalidAmount amt)
           | Some v \<Rightarrow>
               Inr \<lparr>amount = wrap64 (v * 10 ^ (nat (Fraction c)
                                 - length (take (nat (Fraction c)) (drop (i + 1) amt)))),
                    currency = Some c\<rparr>))
     \<and> (case parse_spec c amt of
          Inl e \<Rightarrow> NewFromString GetCurrency amt currencyCode = Inl (InvalidAmount amt)
        | Inr v \<Rightarrow>
            NewFromString GetCurrency amt currencyCode
              = Inr \<lparr>amount = wrap64 v, currency = Some c\<rparr>
            \<and> (is_int64 v \<longrightarrow>
                NewFromString GetCurrency amt currencyCode
                  = Inr \<lparr>amount = v, currency = Some c\<rparr>))"
proof (intro impI conjI allI)
  assume h: "GetCurrency currencyCode = Some c \<and> length (Decimal c) = 1 \<and> 0 \<le> Fraction c"
  then have g: "GetCurrency currencyCode = Some c"
    and sep: "length (Decimal c) = 1" and f: "0 \<le> Fraction c" by simp_all
  note e = NewFromString_eq[where GetCurrency = GetCurrency and currencyCode = currencyCode
      and c = c and amt = amt, OF g sep f]
  { assume "strings_Index amt (Decimal c) = None"
    then show "NewFromString GetCurrency amt currencyCode =
          (case ParseInt amt of
             None \<Rightarrow> Inl (InvalidAmount amt)
           | Some v \<Rightarrow> Inr \<lparr>amount = wrap64 (v * 10 ^ nat (Fraction c)), currency = Some c\<rparr>)"
      using e by (simp split: option.splits) }
  { fix i assume "strings_Index amt (Decimal c) = Some i"
    then show "NewFromString GetCurrency amt currencyCode =
          (case ParseInt (take i amt @ take (nat (Fraction c)) (drop (i + 1) amt)) of
             None \<Rightarrow> Inl (InvalidAmount amt)
           | Some v \<Rightarrow>
               Inr \<lparr>amount = wrap64 (v * 10 ^ (nat (Fraction c)
                                 - length (take (nat (Fraction c)) (drop (i + 1) amt)))),
                    currency = Some c\<rparr>)"
      using e by (simp split: option.splits) }
  show "case parse_spec c amt of
          Inl e \<Rightarrow> NewFromString GetCurrency amt currencyCode = Inl (InvalidAmount amt)
        | Inr v \<Rightarrow>
            NewFromString GetCurrency amt currencyCode
              = Inr \<lparr>amount = wrap64 v, currency = Some c\<rparr>
            \<and> (is_int64 v \<longrightarrow>
                NewFromString GetCurrency amt currencyCode
                  = Inr \<lparr>amount = v, currency = Some c\<rparr>)"
    unfolding e using sep
    by (auto simp: parse_spec_def wrap64_id Let_def split: option.splits)
qed

text \<open>The theorem at the euro, for the strings of \<^verbatim>\<open>TestNewFromString\<close> and for \<open>7\<close>.\<close>

theorem parser_algorithm_witness:
  "GetCurrency_tests ''EUR'' = Some EUR \<and> length (Decimal EUR) = 1 \<and> 0 \<le> Fraction EUR
   \<and> strings_Index ''-1.12345'' (Decimal EUR) = Some 2
   \<and> NewFromString GetCurrency_tests ''-1.12345'' ''EUR''
       = Inr \<lparr>amount = - 112, currency = Some EUR\<rparr>
   \<and> strings_Index ''7'' (Decimal EUR) = None
   \<and> NewFromString GetCurrency_tests ''7'' ''EUR'' = Inr \<lparr>amount = 700, currency = Some EUR\<rparr>
   \<and> parse_spec EUR ''invalid_input'' = Inl (InvalidAmount ''invalid_input'')
   \<and> NewFromString GetCurrency_tests ''invalid_input'' ''EUR''
       = Inl (InvalidAmount ''invalid_input'')"
proof -
  have h: "GetCurrency_tests ''EUR'' = Some EUR \<and> length (Decimal EUR) = 1 \<and> 0 \<le> Fraction EUR"
    by (simp add: GetCurrency_tests_def EUR_def)
  have i1: "strings_Index ''-1.12345'' (Decimal EUR) = Some 2"
    and i2: "strings_Index ''7'' (Decimal EUR) = None"
    by (simp_all add: EUR_def)
  have p1: "ParseInt ''-112'' = Some (- 112)" and p2: "ParseInt ''7'' = Some 7"
    by (simp_all add: ParseInt_def ParseUint_def digit_of_def)
  have s3: "parse_spec EUR ''invalid_input'' = Inl (InvalidAmount ''invalid_input'')"
    by (simp add: parse_spec_def EUR_def ParseInt_def ParseUint_def digit_of_def)
  note T1 = parser_algorithm[of GetCurrency_tests "''EUR''" EUR "''-1.12345''", THEN mp, OF h]
  note T2 = parser_algorithm[of GetCurrency_tests "''EUR''" EUR "''7''", THEN mp, OF h]
  note T3 = parser_algorithm[of GetCurrency_tests "''EUR''" EUR "''invalid_input''", THEN mp, OF h]
  have r1: "NewFromString GetCurrency_tests ''-1.12345'' ''EUR''
       = Inr \<lparr>amount = - 112, currency = Some EUR\<rparr>"
    using T1[THEN conjunct2, THEN conjunct1, rule_format, OF i1] p1
    by (simp add: EUR_def wrap64_def numeral_eq_Suc)
  have r2: "NewFromString GetCurrency_tests ''7'' ''EUR'' = Inr \<lparr>amount = 700, currency = Some EUR\<rparr>"
    using T2[THEN conjunct1, rule_format, OF i2] p2
    by (simp add: EUR_def wrap64_def)
  have r3: "NewFromString GetCurrency_tests ''invalid_input'' ''EUR''
       = Inl (InvalidAmount ''invalid_input'')"
    using T3[THEN conjunct2, THEN conjunct2] s3 by simp
  show ?thesis using h i1 i2 r1 r2 r3 s3 by simp
qed

text \<open>
  C4 as stated fails in two places. The string \<open>9223372036854775807\<close> is read as that
  integer and the two multiplications by ten wrap around: the amount is -100, not the
  product. And with a separator of two bytes (U+066B, the Arabic decimal separator, in
  UTF-8) the code keeps the second byte of the separator as the first fraction digit and
  rejects \<open>1\<close>, separator, \<open>23\<close>, which the parser of the specification reads as 123.
\<close>

theorem parser_algorithm_counterexample:
  "parse_spec EUR ''9223372036854775807'' = Inr 922337203685477580700
   \<and> NewFromString GetCurrency_tests ''9223372036854775807'' ''EUR''
       = Inr \<lparr>amount = - 100, currency = Some EUR\<rparr>
   \<and> parse_spec (EUR\<lparr>Decimal := [CHR 0xD9, CHR 0xAB]\<rparr>)
        [CHR ''1'', CHR 0xD9, CHR 0xAB, CHR ''2'', CHR ''3''] = Inr 123
   \<and> NewFromString (\<lambda>code. Some (EUR\<lparr>Decimal := [CHR 0xD9, CHR 0xAB]\<rparr>))
        [CHR ''1'', CHR 0xD9, CHR 0xAB, CHR ''2'', CHR ''3''] ''EUR''
       = Inl (InvalidAmount [CHR ''1'', CHR 0xD9, CHR 0xAB, CHR ''2'', CHR ''3''])"
  by code_simp

section \<open>What the parser rejects\<close>

lemma toParse_prefix:
  assumes sep: "length (Decimal c) = 1" and f: "0 \<le> Fraction c"
    and i: "strings_Index amt (Decimal c) = Some i"
    and l: "i + 1 + nat (Fraction c) \<le> length amt"
  shows "NewFromString_toParse c (take (i + 1 + nat (Fraction c)) amt @ rest)
       = NewFromString_toParse c amt"
proof -
  let ?n = "i + 1 + nat (Fraction c)"
  let ?s = "take ?n amt @ rest"
  obtain ch where ch: "Decimal c = [ch]" using sep by (cases "Decimal c") auto
  have a: "i < length amt" "amt ! i = ch" "\<forall>j<i. amt ! j \<noteq> ch"
    using i unfolding ch strings_Index_single by simp_all
  have "strings_Index ?s [ch] = Some i"
    unfolding strings_Index_single using a l by (auto simp: nth_append)
  then have i': "strings_Index ?s (Decimal c) = Some i" by (simp add: ch)
  have t: "take i ?s = take i amt" using l by (simp add: min_def)
  have "drop (i + 1) ?s = take (nat (Fraction c)) (drop (i + 1) amt) @ rest"
    using l by (simp add: drop_take)
  then have d: "take (nat (Fraction c)) (drop (i + 1) ?s) = take (nat (Fraction c)) (drop (i + 1) amt)"
    using l by simp
  show ?thesis
    unfolding toParse_eq[OF sep f] i i' by (simp only: option.case t d)
qed

text \<open>
  How far \<^verbatim>\<open>NewFromString\<close> reads (single-byte separator): whatever follows the first
  \<open>fraction\<close> bytes after the first separator is sliced away before
  \<^verbatim>\<open>strconv.ParseInt\<close> sees the string, so replacing it by any other bytes gives the same
  result.
\<close>

lemma NewFromString_tail_unread:
  assumes g: "GetCurrency currencyCode = Some c"
    and sep: "length (Decimal c) = 1" and f: "0 \<le> Fraction c"
    and i: "strings_Index amt (Decimal c) = Some i"
    and l: "i + 1 + nat (Fraction c) \<le> length amt"
  shows "NewFromString GetCurrency (take (i + 1 + nat (Fraction c)) amt @ rest) currencyCode = Inr m
     \<longleftrightarrow> NewFromString GetCurrency amt currencyCode = Inr m"
proof -
  let ?s = "take (i + 1 + nat (Fraction c)) amt @ rest"
  have tp: "NewFromString_toParse c ?s = NewFromString_toParse c amt"
    by (rule toParse_prefix[OF sep f i l])
  have "NewFromString GetCurrency ?s currencyCode =
      (case NewFromString_toParse c amt of
         Inl e \<Rightarrow> Inl e
       | Inr (toParse, decimals) \<Rightarrow>
           (case ParseInt toParse of
              None \<Rightarrow> Inl (InvalidAmount ?s)
            | Some parsed \<Rightarrow>
                Inr \<lparr>amount = NewFromString_loop decimals (Fraction c) parsed,
                     currency = Some c\<rparr>))"
    by (simp only: NewFromString_def g option.case tp)
  then show ?thesis
    using g by (auto simp: NewFromString_def split: sum.splits option.splits prod.splits)
qed

text \<open>
  C5. The claim says that a string with a second separator, a symbol or a blank is rejected,
  and so does the comment above \<^verbatim>\<open>NewFromString\<close>: it can parse \<open>1.23\<close> but not
  \<open>1.23 USD\<close>. The code rejects such bytes only where it reads them: \<open>1.2 EUR\<close> and
  \<open>1 EUR\<close> are refused with the invalid-amount error, while \<open>1.23 EUR\<close> and
  \<open>1.23.4\<close>, whose excess bytes stand after the two fraction digits, are accepted
  as 1.23 euro.
\<close>

theorem parser_strictness_failing_input:
  "NewFromString GetCurrency_tests ''1.23 EUR'' ''EUR''
     = Inr \<lparr>amount = 123, currency = Some EUR\<rparr>
   \<and> NewFromString GetCurrency_tests ''1.23.4'' ''EUR''
     = Inr \<lparr>amount = 123, currency = Some EUR\<rparr>
   \<and> NewFromString GetCurrency_tests ''1.2 EUR'' ''EUR'' = Inl (InvalidAmount ''1.2 EUR'')
   \<and> NewFromString GetCurrency_tests ''1 EUR'' ''EUR'' = Inl (InvalidAmount ''1 EUR'')"
  by code_simp

section \<open>Decoding JSON: the fields\<close>

text \<open>
  C9. Decoding a payload whose \<^verbatim>\<open>amount\<close> field, or whose \<^verbatim>\<open>currency\<close> field, is present but not
  a string fails with \<^verbatim>\<open>ErrInvalidJSON\<close> and leaves the Money as it was; decoding a payload
  with neither field gives the zero Money, amount 0 and no currency, and no error.
\<close>

theorem json_decode:
  "(data ''amount'' = Some v \<and> (\<forall>x. v \<noteq> JString x) \<longrightarrow>
      unmarshalJSON GetCurrency m (Inr data) = (Some ErrInvalidJSON, m))
   \<and> (data ''currency'' = Some v \<and> (\<forall>x. v \<noteq> JString x) \<longrightarrow>
      unmarshalJSON GetCurrency m (Inr data) = (Some ErrInvalidJSON, m))
   \<and> (data ''amount'' = None \<and> data ''currency'' = None \<longrightarrow>
      unmarshalJSON GetCurrency m (Inr data) = (None, \<lparr>amount = 0, currency = None\<rparr>))"
proof (intro conjI impI)
  assume "data ''amount'' = Some v \<and> (\<forall>x. v \<noteq> JString x)"
  then have "unmarshalJSON_field data ''amount'' = Inl ErrInvalidJSON"
    by (cases v) (auto simp: unmarshalJSON_field_def)
  then show "unmarshalJSON GetCurrency m (Inr data) = (Some ErrInvalidJSON, m)"
    by (simp add: unmarshalJSON_def)
next
  assume "data ''currency'' = Some v \<and> (\<forall>x. v \<noteq> JString x)"
  then have c: "unmarshalJSON_field data ''currency'' = Inl ErrInvalidJSON"
    by (cases v) (auto simp: unmarshalJSON_field_def)
  have "unmarshalJSON_field data ''amount'' = Inl ErrInvalidJSON
      \<or> (\<exists>amt. unmarshalJSON_field data ''amount'' = Inr amt)"
    by (auto simp: unmarshalJSON_field_def split: option.splits json.splits)
  then show "unmarshalJSON GetCurrency m (Inr data) = (Some ErrInvalidJSON, m)"
    using c by (auto simp: unmarshalJSON_def)
next
  assume "data ''amount'' = None \<and> data ''currency'' = None"
  then show "unmarshalJSON GetCurrency m (Inr data) = (None, \<lparr>amount = 0, currency = None\<rparr>)"
    by (simp add: unmarshalJSON_def unmarshalJSON_field_def)
qed

text \<open>
  The theorem at the payloads of \<^verbatim>\<open>TestDefaultUnmarshal\<close>: two numbers, a null currency, and
  the empty object.
\<close>

theorem json_decode_witness:
  "unmarshalJSON GetCurrency_tests \<lparr>amount = 5, currency = Some EUR\<rparr>
      (Inr [''amount'' \<mapsto> JNumber 1234, ''currency'' \<mapsto> JNumber 1234])
     = (Some ErrInvalidJSON, \<lparr>amount = 5, currency = Some EUR\<rparr>)
   \<and> unmarshalJSON GetCurrency_tests \<lparr>amount = 5, currency = Some EUR\<rparr>
      (Inr [''amount'' \<mapsto> JString ''1.00'', ''currency'' \<mapsto> JNull])
     = (Some ErrInvalidJSON, \<lparr>amount = 5, currency = Some EUR\<rparr>)
   \<and> unmarshalJSON GetCurrency_tests \<lparr>amount = 5, currency = Some EUR\<rparr> (Inr Map.empty)
     = (None, \<lparr>amount = 0, currency = None\<rparr>)"
  using
    json_decode[of "[''amount'' \<mapsto> JNumber 1234, ''currency'' \<mapsto> JNumber 1234]" "JNumber 1234"
      GetCurrency_tests "\<lparr>amount = 5, currency = Some EUR\<rparr>"]
    json_decode[of "[''amount'' \<mapsto> JString ''1.00'', ''currency'' \<mapsto> JNull]" JNull
      GetCurrency_tests "\<lparr>amount = 5, currency = Some EUR\<rparr>"]
    json_decode[of Map.empty JNull GetCurrency_tests "\<lparr>amount = 5, currency = Some EUR\<rparr>"]
  by simp

section \<open>Rounding\<close>

lemma nearest_aux:
  fixes P r a E :: int
  assumes "E \<le> \<bar>P - r\<bar>" "2 * \<bar>r - a\<bar> \<le> E"
  shows "\<bar>r - a\<bar> \<le> \<bar>P - a\<bar>"
proof -
  have "\<bar>P - r\<bar> = \<bar>(P - a) + (a - r)\<bar>" by simp
  also have "\<dots> \<le> \<bar>P - a\<bar> + \<bar>a - r\<bar>" by (rule abs_triangle_ineq)
  finally have tri: "\<bar>P - r\<bar> \<le> \<bar>P - a\<bar> + \<bar>r - a\<bar>" by (simp add: abs_minus_commute)
  define u v w where "u = \<bar>P - r\<bar>" and "v = \<bar>r - a\<bar>" and "w = \<bar>P - a\<bar>"
  have "E \<le> u" "2 * v \<le> E" "u \<le> w + v" using assms tri by (simp_all add: u_def v_def w_def)
  then have "v \<le> w" by linarith
  then show ?thesis by (simp add: v_def w_def)
qed

lemma round_mag:
  fixes x E :: int
  assumes x: "0 \<le> x" and E: "E = 10 ^ e"
  defines "R \<equiv> (x + E div 2) div E * E"
  shows "0 \<le> R" and "2 * \<bar>R - x\<bar> \<le> E" and "2 * \<bar>R - x\<bar> = E \<Longrightarrow> R = x + E div 2 \<and> 0 < E div 2"
    and "x = 0 \<Longrightarrow> R = 0"
proof -
  have Ep: "0 < E" using E by simp
  have par: "E = 1 \<or> even E" using E by (cases e) auto
  define \<rho> where "\<rho> = (x + E div 2) mod E"
  have \<rho>: "0 \<le> \<rho>" "\<rho> < E" using Ep by (simp_all add: \<rho>_def)
  have R: "R = x + E div 2 - \<rho>"
    unfolding R_def \<rho>_def by (simp add: algebra_simps minus_mod_eq_mult_div)
  have h: "0 \<le> E div 2" "E = 1 \<longrightarrow> E div 2 = 0" "even E \<longrightarrow> 2 * (E div 2) = E"
    using Ep by auto
  show "0 \<le> R" unfolding R_def using x Ep h(1) by (simp add: pos_imp_zdiv_nonneg_iff)
  show "2 * \<bar>R - x\<bar> \<le> E" using R \<rho> h par by auto
  show "2 * \<bar>R - x\<bar> = E \<Longrightarrow> R = x + E div 2 \<and> 0 < E div 2" using R \<rho> h par by auto
  show "x = 0 \<Longrightarrow> R = 0" unfolding R_def using Ep by simp
qed

lemma round_nearest_props:
  fixes a k :: int and e :: nat
  defines "r \<equiv> round_nearest a e"
  shows "10 ^ e dvd r"
    and "2 * \<bar>r - a\<bar> \<le> 10 ^ e"
    and "2 * \<bar>r - a\<bar> = 10 ^ e \<Longrightarrow> \<bar>a\<bar> < \<bar>r\<bar>"
    and "\<bar>r - a\<bar> \<le> \<bar>k * 10 ^ e - a\<bar>"
    and "\<bar>r - a\<bar> = \<bar>k * 10 ^ e - a\<bar> \<Longrightarrow> \<bar>k * 10 ^ e\<bar> \<le> \<bar>r\<bar>"
proof -
  let ?E = "10 ^ e :: int"
  define R where "R = (\<bar>a\<bar> + ?E div 2) div ?E * ?E"
  have r: "r = sgn a * R" by (simp add: r_def round_nearest_def R_def)
  note m = round_mag[of "\<bar>a\<bar>" ?E e, folded R_def, OF abs_ge_zero refl]
  have d: "\<bar>r - a\<bar> = \<bar>R - \<bar>a\<bar>\<bar>" and ar: "\<bar>r\<bar> = R"
    using m(1) m(4) r by (auto simp: sgn_if)
  show dv: "?E dvd r" unfolding r R_def by simp
  show h: "2 * \<bar>r - a\<bar> \<le> ?E" using m(2) d by simp
  show t: "2 * \<bar>r - a\<bar> = ?E \<Longrightarrow> \<bar>a\<bar> < \<bar>r\<bar>" using m(3) d ar by auto
  define P where "P = k * ?E"
  define E where "E = ?E"
  have far: "E \<le> \<bar>P - r\<bar>" if "P \<noteq> r"
  proof -
    obtain j where j: "r = j * ?E" using dv by (auto simp: dvd_def mult.commute)
    have "k \<noteq> j" using that j by (auto simp: P_def)
    then have "1 \<le> \<bar>k - j\<bar>" by simp
    then have "?E \<le> \<bar>k - j\<bar> * ?E" by (simp add: mult_le_cancel_right1)
    also have "\<dots> = \<bar>k * ?E - r\<bar>" unfolding j by (simp add: abs_mult left_diff_distrib[symmetric])
    finally show ?thesis by (simp add: P_def E_def)
  qed
  have h': "2 * \<bar>r - a\<bar> \<le> E" using h by (simp add: E_def)
  have "\<bar>r - a\<bar> \<le> \<bar>P - a\<bar>"
  proof (cases "P = r")
    case True
    then show ?thesis by simp
  next
    case False
    then show ?thesis using far[OF False] h' by (intro nearest_aux)
  qed
  then show "\<bar>r - a\<bar> \<le> \<bar>k * ?E - a\<bar>" by (simp add: P_def)
  have "\<bar>P\<bar> \<le> \<bar>r\<bar>" if eq: "\<bar>r - a\<bar> = \<bar>P - a\<bar>"
  proof (cases "P = r")
    case True
    then show ?thesis by simp
  next
    case False
    have "\<bar>P - a\<bar> \<le> \<bar>r - P\<bar> - \<bar>r - a\<bar> \<or> E \<le> 2 * \<bar>r - a\<bar>"
    proof -
      have "\<bar>P - r\<bar> = \<bar>(P - a) + (a - r)\<bar>" by simp
      also have "\<dots> \<le> \<bar>P - a\<bar> + \<bar>a - r\<bar>" by (rule abs_triangle_ineq)
      finally have "\<bar>P - r\<bar> \<le> \<bar>r - a\<bar> + \<bar>r - a\<bar>" using eq by (simp add: abs_minus_commute)
      then show ?thesis using far[OF False] by simp
    qed
    then have "E \<le> 2 * \<bar>r - a\<bar>"
    proof
      assume "\<bar>P - a\<bar> \<le> \<bar>r - P\<bar> - \<bar>r - a\<bar>"
      then have "2 * \<bar>r - a\<bar> \<le> \<bar>P - r\<bar>" using eq by (simp add: abs_minus_commute)
      moreover have "\<bar>P - r\<bar> \<le> 2 * \<bar>r - a\<bar>"
      proof -
        have "\<bar>P - r\<bar> = \<bar>(P - a) + (a - r)\<bar>" by simp
        also have "\<dots> \<le> \<bar>P - a\<bar> + \<bar>a - r\<bar>" by (rule abs_triangle_ineq)
        finally show ?thesis using eq by (simp add: abs_minus_commute)
      qed
      ultimately show ?thesis using far[OF False] by simp
    qed
    then have tie: "2 * \<bar>r - a\<bar> = E" using h' by simp
    then have R: "R = \<bar>a\<bar> + ?E div 2" "0 < ?E div 2" using m(3) d by (auto simp: E_def)
    define H where "H = ?E div 2"
    have a0: "a \<noteq> 0" using R m(4) by auto
    have rr: "r = sgn a * (\<bar>a\<bar> + H)" "0 < H" using r R by (simp_all add: H_def)
    have "P - a = r - a \<or> P - a = - (r - a)" using eq by (simp add: abs_eq_iff eq_commute)
    then have P: "P = 2 * a - r" using False by auto
    show ?thesis
    proof (cases "0 < a")
      case True
      then have "r = a + H" "P = a - H" using rr P by (simp_all add: sgn_if)
      then show ?thesis using True rr(2) by simp
    next
      case False
      then have "a < 0" using a0 by simp
      then have "r = a - H" "P = a + H" using rr P by (simp_all add: sgn_if)
      then show ?thesis using \<open>a < 0\<close> rr(2) by simp
    qed
  qed
  then show "\<bar>r - a\<bar> = \<bar>k * ?E - a\<bar> \<Longrightarrow> \<bar>k * ?E\<bar> \<le> \<bar>r\<bar>" by (simp add: P_def)
qed

text \<open>
  C3. For every amount \<open>a\<close> and every fraction \<open>e\<close>, the rounded value is a multiple of
  \<open>10^e\<close>, no other multiple is nearer to \<open>a\<close>, and where a second multiple is as near (the
  magnitude of \<open>a\<close> is exactly at the half boundary) the rounded value is the one away from
  zero. \<^verbatim>\<open>Round\<close> returns that value, in the currency's fraction, whenever it fits the
  \<^verbatim>\<open>Amount\<close>. In particular, to two digits: 125 gives 100, 175 gives 200, 349 gives 300, 351
  gives 400, -75 gives -100, 0 gives 0 and -1 gives 0.
\<close>

theorem rounding:
  "10 ^ e dvd round_nearest a e
   \<and> 2 * \<bar>round_nearest a e - a\<bar> \<le> 10 ^ e
   \<and> (2 * \<bar>round_nearest a e - a\<bar> = 10 ^ e \<longrightarrow> \<bar>a\<bar> < \<bar>round_nearest a e\<bar>)
   \<and> (\<forall>k. \<bar>round_nearest a e - a\<bar> \<le> \<bar>k * 10 ^ e - a\<bar>
          \<and> (\<bar>round_nearest a e - a\<bar> = \<bar>k * 10 ^ e - a\<bar> \<longrightarrow> \<bar>k * 10 ^ e\<bar> \<le> \<bar>round_nearest a e\<bar>))
   \<and> (0 \<le> f \<and> is_int64 (round_nearest a (nat f)) \<longrightarrow> calc_round a f = round_nearest a (nat f))
   \<and> (currency m = Some c \<and> 0 \<le> Fraction c
        \<and> is_int64 (round_nearest (amount m) (nat (Fraction c))) \<longrightarrow>
      Round m = Inr \<lparr>amount = round_nearest (amount m) (nat (Fraction c)), currency = currency m\<rparr>)
   \<and> calc_round 125 2 = 100 \<and> calc_round 175 2 = 200 \<and> calc_round 349 2 = 300
   \<and> calc_round 351 2 = 400 \<and> calc_round (- 75) 2 = - 100 \<and> calc_round 0 2 = 0
   \<and> calc_round (- 1) 2 = 0"
proof -
  have ex: "calc_round 125 2 = 100 \<and> calc_round 175 2 = 200 \<and> calc_round 349 2 = 300
   \<and> calc_round 351 2 = 400 \<and> calc_round (- 75) 2 = - 100 \<and> calc_round 0 2 = 0
   \<and> calc_round (- 1) 2 = 0"
    by (simp add: calc_round_def round_nearest_def wrap64_def)
  have c: "is_int64 (round_nearest a (nat f)) \<Longrightarrow> calc_round a f = round_nearest a (nat f)" for a f
    by (simp add: calc_round_def wrap64_id)
  show ?thesis
    using round_nearest_props[where a = a and e = e] ex c by (auto simp: Round_def)
qed


text \<open>
  The theorem at the tie 150 (to two digits: 200), at 12555 to three digits
  (\<^verbatim>\<open>TestMoney_RoundWithExponential\<close>) and at -75 euro cents.
\<close>

theorem rounding_witness:
  "2 * \<bar>round_nearest 150 2 - 150\<bar> = (10::int) ^ 2 \<and> \<bar>150\<bar> < \<bar>round_nearest 150 2\<bar>
   \<and> round_nearest 150 2 = 200
   \<and> (0::int) \<le> 3 \<and> is_int64 (round_nearest 12555 (nat 3)) \<and> calc_round 12555 3 = 13000
   \<and> currency \<lparr>amount = - 75, currency = Some EUR\<rparr> = Some EUR \<and> 0 \<le> Fraction EUR
   \<and> Round \<lparr>amount = - 75, currency = Some EUR\<rparr> = Inr \<lparr>amount = - 100, currency = Some EUR\<rparr>"
proof -
  have v: "round_nearest 150 2 = 200" "round_nearest 12555 (nat 3) = 13000"
    "round_nearest (- 75) (nat (Fraction EUR)) = - 100"
    by (simp_all add: round_nearest_def EUR_def)
  have i: "is_int64 13000" "is_int64 (- 100)" by (simp_all add: is_int64_def)
  note T1 = rounding[where e = 2 and a = 150, THEN conjunct2, THEN conjunct2, THEN conjunct1]
  note T2 = rounding[where f = 3 and a = 12555, THEN conjunct2, THEN conjunct2, THEN conjunct2, THEN conjunct2,
      THEN conjunct1]
  note T3 = rounding[where m = "\<lparr>amount = - 75, currency = Some EUR\<rparr>" and c = EUR,
      THEN conjunct2, THEN conjunct2, THEN conjunct2, THEN conjunct2, THEN conjunct2, THEN conjunct1]
  have r1: "\<bar>150\<bar> < \<bar>round_nearest 150 2\<bar>" using T1 v(1) by simp
  have r2: "calc_round 12555 3 = 13000" using T2 v(2) i(1) by simp
  have r3: "Round \<lparr>amount = - 75, currency = Some EUR\<rparr> = Inr \<lparr>amount = - 100, currency = Some EUR\<rparr>"
    using T3 v(3) i(2) by (simp add: EUR_def)
  show ?thesis using v i r1 r2 r3 by (simp add: EUR_def)
qed

section \<open>Formatting an amount and parsing it back\<close>

text \<open>
  The digits written by \<open>decimal_text\<close> and \<open>digits\<close> are read back by
  \<open>parse_digits\<close> as the magnitude of the amount.
\<close>

lemma digit_of_digit:
  "0 \<le> d \<Longrightarrow> d < 10 \<Longrightarrow> digit_of (char_of (48 + d)) = Some d"
  by (simp add: digit_of_def of_char_of)

lemma parse_digits_append:
  "parse_digits (xs @ ys) n =
     (case parse_digits xs n of None \<Rightarrow> None | Some m \<Rightarrow> parse_digits ys m)"
  by (induction xs arbitrary: n) (auto split: option.splits)

lemma decimal_text_parse:
  "0 \<le> n \<Longrightarrow> parse_digits (decimal_text n) m = Some (m * 10 ^ length (decimal_text n) + n)"
proof (induction n arbitrary: m rule: decimal_text.induct)
  case (1 n)
  show ?case
  proof (cases "n < 10")
    case True
    then show ?thesis using "1.prems"
      by (subst (1 2) decimal_text.simps) (simp add: digit_of_digit)
  next
    case False
    have nn: "0 \<le> n div 10" using "1.prems" by simp
    have d: "digit_of (char_of (of_char (CHR ''0'') + n mod 10)) = Some (n mod 10)"
      using digit_of_digit[of "n mod 10"] by simp
    have IH: "parse_digits (decimal_text (n div 10)) m
        = Some (m * 10 ^ length (decimal_text (n div 10)) + n div 10)"
      using False nn by (intro "1.IH") simp_all
    have e: "decimal_text n = decimal_text (n div 10) @ [char_of (of_char (CHR ''0'') + n mod 10)]"
      using False by (subst decimal_text.simps) simp
    show ?thesis unfolding e parse_digits_append IH using d
      by (simp add: algebra_simps)
  qed
qed

lemma decimal_text_digits:
  "0 \<le> n \<Longrightarrow> ch \<in> set (decimal_text n) \<Longrightarrow> digit_of ch \<noteq> None"
proof (induction n rule: decimal_text.induct)
  case (1 n)
  show ?case
  proof (cases "n < 10")
    case True
    then show ?thesis using "1.prems"
      by (subst (asm) decimal_text.simps) (auto simp: digit_of_digit)
  next
    case False
    have d: "digit_of (char_of (of_char (CHR ''0'') + n mod 10)) = Some (n mod 10)"
      using digit_of_digit[of "n mod 10"] by simp
    have e: "decimal_text n = decimal_text (n div 10) @ [char_of (of_char (CHR ''0'') + n mod 10)]"
      using False by (subst decimal_text.simps) simp
    show ?thesis using "1.prems" "1.IH"[OF False] d unfolding e by auto
  qed
qed

lemma decimal_text_nonempty: "decimal_text n \<noteq> []"
  by (subst decimal_text.simps) simp

lemma decimal_text_length:
  "0 \<le> n \<Longrightarrow> n < 10 ^ k \<Longrightarrow> 0 < k \<Longrightarrow> length (decimal_text n) \<le> k"
proof (induction n arbitrary: k rule: decimal_text.induct)
  case (1 n)
  show ?case
  proof (cases "n < 10")
    case True
    then show ?thesis using "1.prems" by (subst decimal_text.simps) simp
  next
    case False
    obtain j where k: "k = Suc j" using "1.prems"(3) by (cases k) auto
    have j: "0 < j" using False "1.prems"(2) k by (cases j) auto
    have "n div 10 < 10 ^ j" using "1.prems"(2) k by (simp add: div_less_iff_less_mult)
    then have "length (decimal_text (n div 10)) \<le> j"
      using False "1.prems"(1) j by (intro "1.IH") simp_all
    then show ?thesis using False k by (subst decimal_text.simps) simp
  qed
qed

lemma digit_of_0: "digit_of (CHR ''0'') = Some 0"
  by (simp add: digit_of_def)

lemma parse_digits_zeros: "parse_digits (replicate k (CHR ''0'') @ s) 0 = parse_digits s 0"
  by (induction k) (simp_all add: digit_of_0)

lemma digits_parse: "parse_digits (digits c a) 0 = Some \<bar>a\<bar>"
  unfolding digits_def zero_pad_def parse_digits_zeros
  using decimal_text_parse[of "\<bar>a\<bar>" 0] by simp

lemma digits_all_digits: "ch \<in> set (digits c a) \<Longrightarrow> digit_of ch \<noteq> None"
  unfolding digits_def zero_pad_def
  using decimal_text_digits[of "\<bar>a\<bar>" ch] by (auto simp: digit_of_0)

lemma digits_length: "nat (Fraction c) + 1 \<le> length (digits c a)"
  unfolding digits_def zero_pad_def by simp

lemma digits_length_small:
  assumes "\<bar>a\<bar> < 1000 * 10 ^ nat (Fraction c)"
  shows "length (digits c a) \<le> nat (Fraction c) + 3"
proof -
  have "\<bar>a\<bar> < 10 ^ (nat (Fraction c) + 3)" using assms by (simp add: power_add)
  then have "length (decimal_text \<bar>a\<bar>) \<le> nat (Fraction c) + 3"
    by (intro decimal_text_length) simp_all
  then show ?thesis unfolding digits_def zero_pad_def by simp
qed

lemma group3_small: "length ds \<le> 3 \<Longrightarrow> group3 sep ds = ds"
proof -
  assume l: "length ds \<le> 3"
  have "group3_rev s xs = xs" if "length xs \<le> 3" for s xs
  proof (cases xs)
    case Nil
    then show ?thesis by simp
  next
    case c1: (Cons x1 t1)
    show ?thesis
    proof (cases t1)
      case Nil
      then show ?thesis using c1 by simp
    next
      case c2: (Cons x2 t2)
      show ?thesis
      proof (cases t2)
        case Nil
        then show ?thesis using c1 c2 by simp
      next
        case c3: (Cons x3 t3)
        then have "t3 = []" using that c1 c2 by simp
        then show ?thesis using c1 c2 c3 by simp
      qed
    qed
  qed
  then show ?thesis using l by (simp add: group3_def)
qed

lemma numeric_eq:
  assumes th: "Thousand c = [] \<or> \<bar>a\<bar> < 1000 * 10 ^ nat (Fraction c)"
  shows "numeric c a =
     take (length (digits c a) - nat (Fraction c)) (digits c a)
     @ (if 0 < Fraction c
        then Decimal c @ drop (length (digits c a) - nat (Fraction c)) (digits c a) else [])"
proof -
  let ?ip = "take (length (digits c a) - nat (Fraction c)) (digits c a)"
  have "group3 (Thousand c) ?ip = ?ip"
  proof (cases "Thousand c = []")
    case True
    then show ?thesis by (simp add: group3_def)
  next
    case False
    then have "length (digits c a) \<le> nat (Fraction c) + 3"
      using th by (intro digits_length_small) simp
    then show ?thesis by (intro group3_small) simp
  qed
  then show ?thesis by (simp add: numeric_def Let_def)
qed

lemma replace1_append: "p \<notin> set xs \<Longrightarrow> replace1 p r (xs @ p # ys) = xs @ r @ ys"
  by (induction xs) auto

lemma TrimSpace_blanks:
  assumes "set pre \<subseteq> {CHR '' ''}" "set post \<subseteq> {CHR '' ''}" "s \<noteq> []"
    "\<not> is_space (hd s)" "\<not> is_space (last s)"
  shows "TrimSpace (pre @ s @ post) = s"
proof -
  have sp: "is_space (CHR '' '')" by (simp add: is_space_def)
  have 1: "dropWhile is_space (pre @ s @ post) = s @ post"
    using assms(1,3,4) sp by (cases s) (auto simp: dropWhile_append subset_iff)
  have "dropWhile is_space (rev post @ rev s) = rev s"
    using assms(2,3,5) sp
    by (cases s rule: rev_cases) (auto simp: dropWhile_append subset_iff)
  then show ?thesis by (simp add: TrimSpace_def 1)
qed

lemma is_space_not_digit: "is_space ch \<Longrightarrow> digit_of ch = None"
  by (auto simp: is_space_def digit_of_def)

lemma FormatAmount_eq:
  assumes tpl: "Template c = pre @ ''1'' @ post"
    and bl: "set (remove1 (CHR ''$'') (pre @ post)) \<subseteq> {CHR '' ''}"
    and n: "CHR ''$'' \<notin> set (numeric c a)" "numeric c a \<noteq> []"
      "\<not> is_space (hd (numeric c a))" "\<not> is_space (last (numeric c a))"
  shows "FormatAmount c a = (if a < 0 then ''-'' else []) @ numeric c a"
proof -
  let ?N = "numeric c a"
  have pre: "y = CHR ''$'' \<or> y = CHR '' ''" if y: "y \<in> set pre" for y
  proof (cases "y = CHR ''$''")
    case True
    then show ?thesis by simp
  next
    case False
    then have "y \<in> set (remove1 (CHR ''$'') (pre @ post))"
      using y by (simp add: in_set_remove1)
    then show ?thesis using bl by auto
  qed
  then have "CHR ''1'' \<notin> set pre" by auto
  then have r: "replace1 (CHR ''1'') ?N (Template c) = pre @ ?N @ post"
    unfolding tpl using replace1_append[of "CHR ''1''" pre ?N post] by simp
  have "\<exists>pre' post'. remove1 (CHR ''$'') (pre @ ?N @ post) = pre' @ ?N @ post'
      \<and> set pre' \<subseteq> {CHR '' ''} \<and> set post' \<subseteq> {CHR '' ''}"
  proof (cases "CHR ''$'' \<in> set pre")
    case True
    then have "remove1 (CHR ''$'') (pre @ ?N @ post) = remove1 (CHR ''$'') pre @ ?N @ post"
      "remove1 (CHR ''$'') (pre @ post) = remove1 (CHR ''$'') pre @ post"
      by (simp_all add: remove1_append)
    then show ?thesis using bl by auto
  next
    case False
    then have "remove1 (CHR ''$'') (pre @ ?N @ post) = pre @ ?N @ remove1 (CHR ''$'') post"
      "remove1 (CHR ''$'') (pre @ post) = pre @ remove1 (CHR ''$'') post"
      using n(1) by (simp_all add: remove1_append)
    then show ?thesis using bl by auto
  qed
  then obtain pre' post' where
    "remove1 (CHR ''$'') (pre @ ?N @ post) = pre' @ ?N @ post'"
    "set pre' \<subseteq> {CHR '' ''}" "set post' \<subseteq> {CHR '' ''}" by blast
  then have "TrimSpace (remove1 (CHR ''$'') (pre @ ?N @ post)) = ?N"
    using TrimSpace_blanks[of pre' post' ?N] n by simp
  then show ?thesis by (simp add: FormatAmount_def r)
qed

lemma ParseInt_signed_digits:
  assumes a: "is_int64 a"
  shows "ParseInt ((if a < 0 then ''-'' else []) @ digits c a) = Some a"
proof -
  have ne: "digits c a \<noteq> []" using digits_length[of c a] by auto
  have u: "ParseUint (digits c a) = Some \<bar>a\<bar>" using ne by (simp add: ParseUint_def digits_parse)
  show ?thesis
  proof (cases "a < 0")
    case True
    then show ?thesis using u a by (simp add: ParseInt_def is_int64_def)
  next
    case False
    have "digit_of (hd (digits c a)) \<noteq> None"
      using ne by (intro digits_all_digits[of _ c a]) simp
    then have "hd (digits c a) \<noteq> CHR ''+''" "hd (digits c a) \<noteq> CHR ''-''"
      by (auto simp: digit_of_def)
    then show ?thesis using False u a ne by (simp add: ParseInt_def is_int64_def)
  qed
qed

lemma numeric_shape:
  assumes dc: "Decimal c = [dc]"
    and th: "Thousand c = [] \<or> \<bar>a\<bar> < 1000 * 10 ^ nat (Fraction c)"
  shows "numeric c a = take (length (digits c a) - nat (Fraction c)) (digits c a)
            @ (if 0 < Fraction c
               then dc # drop (length (digits c a) - nat (Fraction c)) (digits c a) else [])"
    and "numeric c a \<noteq> []"
    and "hd (numeric c a) \<in> set (digits c a)"
    and "last (numeric c a) \<in> set (digits c a)"
    and "set (numeric c a) \<subseteq> insert dc (set (digits c a))"
proof -
  let ?ds = "digits c a" and ?F = "nat (Fraction c)"
  let ?ip = "take (length ?ds - ?F) ?ds" and ?fp = "drop (length ?ds - ?F) ?ds"
  have len: "?F + 1 \<le> length ?ds" by (rule digits_length)
  have ipne: "?ip \<noteq> []" using len by auto
  show N: "numeric c a = ?ip @ (if 0 < Fraction c then dc # ?fp else [])"
    using numeric_eq[OF th] dc by simp
  show "numeric c a \<noteq> []" using ipne N by simp
  have "hd (numeric c a) = hd ?ip" using ipne N by simp
  moreover have "hd ?ip \<in> set ?ip" by (rule hd_in_set[OF ipne])
  ultimately show "hd (numeric c a) \<in> set ?ds"
    using in_set_takeD[of "hd ?ip" "length ?ds - ?F" ?ds] by (simp only:)
  show "last (numeric c a) \<in> set ?ds"
  proof (cases "0 < Fraction c")
    case True
    then have ne: "?fp \<noteq> []" using len by auto
    then have "last (numeric c a) = last ?fp" using N True by simp
    moreover have "last ?fp \<in> set ?fp" by (rule last_in_set[OF ne])
    ultimately show ?thesis
      using in_set_dropD[of "last ?fp" "length ?ds - ?F" ?ds] by (simp only:)
  next
    case False
    then have "last (numeric c a) = last ?ip" using N ipne by simp
    moreover have "last ?ip \<in> set ?ip" by (rule last_in_set[OF ipne])
    ultimately show ?thesis
      using in_set_takeD[of "last ?ip" "length ?ds - ?F" ?ds] by (simp only:)
  qed
  have "set ?ip \<subseteq> set ?ds" "set ?fp \<subseteq> set ?ds"
    by (rule set_take_subset, rule set_drop_subset)
  then show "set (numeric c a) \<subseteq> insert dc (set ?ds)" unfolding N by auto
qed

lemma FormatAmount_plain:
  assumes dc: "Decimal c = [dc]" "digit_of dc = None" "dc \<noteq> CHR ''$''"
    and th: "Thousand c = [] \<or> \<bar>a\<bar> < 1000 * 10 ^ nat (Fraction c)"
    and tpl: "Template c = pre @ ''1'' @ post"
      "set (remove1 (CHR ''$'') (pre @ post)) \<subseteq> {CHR '' ''}"
  shows "FormatAmount c a = (if a < 0 then ''-'' else []) @ numeric c a"
proof (rule FormatAmount_eq[OF tpl])
  note s = numeric_shape[OF dc(1) th]
  have nd: "digit_of (CHR ''$'') = None" by (simp add: digit_of_def)
  show "CHR ''$'' \<notin> set (numeric c a)"
  proof
    assume "CHR ''$'' \<in> set (numeric c a)"
    then have "CHR ''$'' \<in> set (digits c a)" using s(5) dc(3) by auto
    then show False using digits_all_digits[of "CHR ''$''" c a] nd by simp
  qed
  show "numeric c a \<noteq> []" by (rule s(2))
  show "\<not> is_space (hd (numeric c a))"
    using digits_all_digits[OF s(3)] by (auto dest: is_space_not_digit)
  show "\<not> is_space (last (numeric c a))"
    using digits_all_digits[OF s(4)] by (auto dest: is_space_not_digit)
qed

lemma round_trip_aux:
  assumes g: "GetCurrency currencyCode = Some c" and a: "is_int64 a" and f: "0 \<le> Fraction c"
    and dc: "Decimal c = [dc]" "digit_of dc = None" "dc \<noteq> CHR ''-''" "dc \<noteq> CHR ''$''"
    and th: "Thousand c = [] \<or> \<bar>a\<bar> < 1000 * 10 ^ nat (Fraction c)"
    and tpl: "Template c = pre @ ''1'' @ post"
      "set (remove1 (CHR ''$'') (pre @ post)) \<subseteq> {CHR '' ''}"
  shows "NewFromString GetCurrency (FormatAmount c a) currencyCode
       = Inr \<lparr>amount = a, currency = Some c\<rparr>"
proof -
  define ds where "ds = digits c a"
  define F where "F = nat (Fraction c)"
  define ip where "ip = take (length ds - F) ds"
  define fp where "fp = drop (length ds - F) ds"
  define sign where "sign = (if a < 0 then ''-'' else [])"
  have len: "F + 1 \<le> length ds" unfolding F_def ds_def by (rule digits_length)
  have dig: "digit_of ch \<noteq> None" if "ch \<in> set ds" for ch
    using that unfolding ds_def by (rule digits_all_digits)
  have N: "numeric c a = ip @ (if 0 < Fraction c then dc # fp else [])"
    unfolding ip_def fp_def ds_def F_def by (rule numeric_shape(1)[OF dc(1) th])
  have fa: "FormatAmount c a = sign @ numeric c a"
    unfolding sign_def by (rule FormatAmount_plain[OF dc(1,2,4) th tpl])
  have sep: "length (Decimal c) = 1" using dc(1) by simp
  have pi: "ParseInt (sign @ ds) = Some a"
    unfolding sign_def ds_def by (rule ParseInt_signed_digits[OF a])
  have ipfp: "ip @ fp = ds" unfolding ip_def fp_def by simp
  have nodc: "dc \<notin> set sign" "dc \<notin> set ds" "dc \<notin> set ip"
    using dig[of dc] dc(2,3) in_set_takeD[of dc "length ds - F" ds]
    by (auto simp: sign_def ip_def)
  have wa: "wrap64 a = a" using a by (rule wrap64_id)
  note e = NewFromString_eq[where GetCurrency = GetCurrency and currencyCode = currencyCode
      and c = c and amt = "FormatAmount c a", OF g sep f]
  show ?thesis
  proof (cases "0 < Fraction c")
    case False
    then have F0: "Fraction c = 0" "F = 0" using f by (simp_all add: F_def)
    have "ip = ds" unfolding ip_def F0 by simp
    then have amt: "FormatAmount c a = sign @ ds" using fa N False by simp
    have i: "strings_Index (sign @ ds) (Decimal c) = None"
      unfolding dc(1) strings_Index_single_None using nodc by simp
    note e' = e[unfolded amt i option.case]
    show ?thesis unfolding amt e' using pi by (simp add: F0 wa)
  next
    case True
    have amt: "FormatAmount c a = (sign @ ip) @ dc # fp" using fa N True by simp
    have nd: "\<forall>j<length (sign @ ip). (sign @ ip) ! j \<noteq> dc"
    proof (intro allI impI)
      fix j assume "j < length (sign @ ip)"
      then have "(sign @ ip) ! j \<in> set (sign @ ip)" by (rule nth_mem)
      then show "(sign @ ip) ! j \<noteq> dc" using nodc by auto
    qed
    have i: "strings_Index ((sign @ ip) @ dc # fp) (Decimal c) = Some (length (sign @ ip))"
      unfolding dc(1) strings_Index_single using nd
      by (simp add: nth_append del: append_assoc)
    have lf: "length fp = F" using len by (simp add: fp_def)
    have t: "take (length (sign @ ip)) ((sign @ ip) @ dc # fp) = sign @ ip" by simp
    have d: "take (nat (Fraction c)) (drop (length (sign @ ip) + 1) ((sign @ ip) @ dc # fp)) = fp"
      using lf by (simp add: F_def)
    have j: "(sign @ ip) @ fp = sign @ ds" using ipfp by simp
    note e' = e[unfolded amt i option.case t d j pi]
    show ?thesis unfolding amt e' using lf by (simp add: F_def wa)
  qed
qed

text \<open>
  Where the decimal separator is one byte long, as \<^verbatim>\<open>NewFromString\<close> takes it to be, the
  round trip holds: parsing the text of \<open>FormatAmount\<close> (and so of \<open>Money.Amount\<close>) with
  \<open>NewFromString\<close> returns the amount and the currency again, for every int64 amount of a
  registered currency with a fraction of at least 0, a decimal separator of one byte that is
  neither a digit, nor the minus sign, nor the dollar sign, a template with one amount
  placeholder \<open>1\<close> and besides it at most one grapheme placeholder and blanks, when no
  thousand separator is written: the currency has none, or the magnitude is below one
  thousand major units.
\<close>

theorem round_trip_one_byte_separator:
  "GetCurrency currencyCode = Some c \<and> is_int64 a \<and> 0 \<le> Fraction c
   \<and> Decimal c = [dc] \<and> digit_of dc = None \<and> dc \<noteq> CHR ''-'' \<and> dc \<noteq> CHR ''$''
   \<and> (Thousand c = [] \<or> \<bar>a\<bar> < 1000 * 10 ^ nat (Fraction c))
   \<and> Template c = pre @ ''1'' @ post \<and> set (remove1 (CHR ''$'') (pre @ post)) \<subseteq> {CHR '' ''}
   \<longrightarrow>
     NewFromString GetCurrency (FormatAmount c a) currencyCode
       = Inr \<lparr>amount = a, currency = Some c\<rparr>
     \<and> NewFromString GetCurrency (Money_Amount dflt \<lparr>amount = a, currency = Some c\<rparr>) currencyCode
       = Inr \<lparr>amount = a, currency = Some c\<rparr>"
proof
  assume h: "GetCurrency currencyCode = Some c \<and> is_int64 a \<and> 0 \<le> Fraction c
   \<and> Decimal c = [dc] \<and> digit_of dc = None \<and> dc \<noteq> CHR ''-'' \<and> dc \<noteq> CHR ''$''
   \<and> (Thousand c = [] \<or> \<bar>a\<bar> < 1000 * 10 ^ nat (Fraction c))
   \<and> Template c = pre @ ''1'' @ post \<and> set (remove1 (CHR ''$'') (pre @ post)) \<subseteq> {CHR '' ''}"
  have "NewFromString GetCurrency (FormatAmount c a) currencyCode
       = Inr \<lparr>amount = a, currency = Some c\<rparr>"
    by (rule round_trip_aux[where dc = dc and pre = pre and post = post]) (use h in simp_all)
  then show "NewFromString GetCurrency (FormatAmount c a) currencyCode
       = Inr \<lparr>amount = a, currency = Some c\<rparr>
     \<and> NewFromString GetCurrency (Money_Amount dflt \<lparr>amount = a, currency = Some c\<rparr>) currencyCode
       = Inr \<lparr>amount = a, currency = Some c\<rparr>"
    by (simp add: Money_Amount_def Currency_get_def)
qed

text \<open>
  The theorem at -12.34 euro: the text is \<open>-12.34\<close>, read back as -1234.
\<close>

theorem round_trip_one_byte_separator_witness:
  "GetCurrency_tests ''EUR'' = Some EUR \<and> is_int64 (- 1234) \<and> 0 \<le> Fraction EUR
   \<and> Decimal EUR = [CHR ''.''] \<and> digit_of (CHR ''.'') = None
   \<and> \<bar>- 1234\<bar> < (1000::int) * 10 ^ nat (Fraction EUR)
   \<and> Template EUR = ''$'' @ ''1'' @ '''' \<and> set (remove1 (CHR ''$'') (''$'' @ '''')) \<subseteq> {CHR '' ''}
   \<and> FormatAmount EUR (- 1234) = ''-12.34''
   \<and> NewFromString GetCurrency_tests (FormatAmount EUR (- 1234)) ''EUR''
       = Inr \<lparr>amount = - 1234, currency = Some EUR\<rparr>"
proof -
  have h: "GetCurrency_tests ''EUR'' = Some EUR \<and> is_int64 (- 1234) \<and> 0 \<le> Fraction EUR
   \<and> Decimal EUR = [CHR ''.''] \<and> digit_of (CHR ''.'') = None \<and> CHR ''.'' \<noteq> CHR ''-''
   \<and> CHR ''.'' \<noteq> CHR ''$''
   \<and> (Thousand EUR = [] \<or> \<bar>- 1234\<bar> < (1000::int) * 10 ^ nat (Fraction EUR))
   \<and> Template EUR = ''$'' @ ''1'' @ '''' \<and> set (remove1 (CHR ''$'') (''$'' @ '''')) \<subseteq> {CHR '' ''}"
    by (simp add: GetCurrency_tests_def EUR_def is_int64_def digit_of_def)
  have f: "FormatAmount EUR (- 1234) = ''-12.34''" by code_simp
  note T = round_trip_one_byte_separator[where GetCurrency = GetCurrency_tests and currencyCode = "''EUR''"
      and c = EUR and a = "- 1234" and dc = "CHR ''.''" and pre = "''$''" and post = "''''",
      THEN mp, OF h, THEN conjunct1]
  have b: "\<bar>- 1234\<bar> < (1000::int) * 10 ^ nat (Fraction EUR)" by (simp add: EUR_def)
  show ?thesis using h f T b by simp
qed

text \<open>
  C6. With no thousand grouping in the text, the round trip fails for a decimal separator of
  more than one byte. 12.34 XTS is written as the six bytes \<open>12\<close>, D9 AB,
  \<open>34\<close>; \<open>NewFromString\<close> finds the separator at index 2, counts
  \<open>6 - 2 - 1 = 3\<close> decimals, cut to 2, and keeps \<open>amount[:2] + amount[3:5]\<close>,
  the bytes \<open>12\<close>, AB, \<open>3\<close>, which \<^verbatim>\<open>strconv.ParseInt\<close> refuses: the call
  returns the invalid-amount error where the claim says 12.34 XTS.
\<close>

theorem round_trip_failing_input:
  "GetCurrency_custom ''XTS'' = Some XTS \<and> is_int64 1234 \<and> Thousand XTS = []
   \<and> FormatAmount XTS 1234 = [CHR ''1'', CHR ''2'', CHR 0xD9, CHR 0xAB, CHR ''3'', CHR ''4'']
   \<and> NewFromString_toParse XTS [CHR ''1'', CHR ''2'', CHR 0xD9, CHR 0xAB, CHR ''3'', CHR ''4'']
       = Inr ([CHR ''1'', CHR ''2'', CHR 0xAB, CHR ''3''], 2)
   \<and> NewFromString GetCurrency_custom [CHR ''1'', CHR ''2'', CHR 0xD9, CHR 0xAB, CHR ''3'', CHR ''4'']
         ''XTS''
       = Inl (InvalidAmount [CHR ''1'', CHR ''2'', CHR 0xD9, CHR 0xAB, CHR ''3'', CHR ''4''])
   \<and> NewFromString GetCurrency_custom (FormatAmount XTS 1234) ''XTS''
       \<noteq> Inr \<lparr>amount = 1234, currency = Some XTS\<rparr>"
  by code_simp

end
